theory Spec2Isabelle
  imports Main
begin

section \<open>JavaScript values\<close>

text \<open>
  The values that travel between the settings store, the JSON codec and the form
  controls. Numbers are the integers plus \<open>NaN\<close>: fractional doubles and IEEE rounding
  are outside this model. Objects are association lists in property order.
\<close>

datatype jsnum = NaN | Fin int

datatype jsval =
    JUndefined
  | JNull
  | JBool bool
  | JNum jsnum
  | JStr string
  | JArr "jsval list"
  | JObj "(string \<times> jsval) list"

datatype error = SyntaxError | TypeError | UsageError

text \<open>ECMAScript \<open>ToBoolean\<close>: what \<open>if (x)\<close> and \<open>!x\<close> test.\<close>

fun truthy :: "jsval \<Rightarrow> bool" where
  "truthy JUndefined = False"
| "truthy JNull = False"
| "truthy (JBool b) = b"
| "truthy (JNum NaN) = False"
| "truthy (JNum (Fin i)) = (i \<noteq> 0)"
| "truthy (JStr s) = (s \<noteq> [])"
| "truthy (JArr xs) = True"
| "truthy (JObj kvs) = True"

section \<open>The host's JSON codec\<close>

text \<open>
  \<open>JSON.stringify\<close> and \<open>JSON.parse\<close> are functions of the host, not of the
  repository; they are modelled after ECMAScript 5, section 15.12, on the values above.
\<close>

subsection \<open>JSON.stringify\<close>

definition digit_char :: "nat \<Rightarrow> char" where
  "digit_char d = char_of (48 + d)"

fun string_of_nat :: "nat \<Rightarrow> string" where
  "string_of_nat n =
     (if n < 10 then [digit_char n] else string_of_nat (n div 10) @ [digit_char (n mod 10)])"

declare string_of_nat.simps [simp del]

definition string_of_int :: "int \<Rightarrow> string" where
  "string_of_int i = (if i < 0 then CHR ''-'' # string_of_nat (nat (- i)) else string_of_nat (nat i))"

definition hex_char :: "nat \<Rightarrow> char" where
  "hex_char d = (if d < 10 then char_of (48 + d) else char_of (87 + d))"

text \<open>The escape of one character inside a quoted string (the abstract operation \<open>Quote\<close>).\<close>

definition escape_char :: "char \<Rightarrow> string" where
  "escape_char c =
     (if c = CHR 0x22 then [CHR 0x5C, CHR 0x22]
      else if c = CHR 0x5C then [CHR 0x5C, CHR 0x5C]
      else if c = CHR 0x08 then [CHR 0x5C, CHR ''b'']
      else if c = CHR 0x0C then [CHR 0x5C, CHR ''f'']
      else if c = CHR 0x0A then [CHR 0x5C, CHR ''n'']
      else if c = CHR 0x0D then [CHR 0x5C, CHR ''r'']
      else if c = CHR 0x09 then [CHR 0x5C, CHR ''t'']
      else if (of_char c :: nat) < 32
        then [CHR 0x5C, CHR ''u'', CHR ''0'', CHR ''0'',
              hex_char ((of_char c :: nat) div 16), hex_char ((of_char c :: nat) mod 16)]
      else [c])"

definition quote :: "string \<Rightarrow> string" where
  "quote s = CHR 0x22 # concat (map escape_char s) @ [CHR 0x22]"

fun intersperse :: "string \<Rightarrow> string list \<Rightarrow> string" where
  "intersperse sep [] = []"
| "intersperse sep [x] = x"
| "intersperse sep (x # y # ys) = x @ sep @ intersperse sep (y # ys)"

text \<open>
  The abstract operation \<open>Str\<close>: \<open>None\<close> is the result \<open>undefined\<close>. Inside an array
  an undefined element is written \<open>null\<close>; inside an object a property whose value is
  undefined is left out. A number that is not finite is written \<open>null\<close>.
\<close>

fun stringify_value :: "jsval \<Rightarrow> string option"
and stringify_elements :: "jsval list \<Rightarrow> string list"
and stringify_members :: "(string \<times> jsval) list \<Rightarrow> string list" where
  "stringify_value JUndefined = None"
| "stringify_value JNull = Some ''null''"
| "stringify_value (JBool b) = Some (if b then ''true'' else ''false'')"
| "stringify_value (JNum NaN) = Some ''null''"
| "stringify_value (JNum (Fin i)) = Some (string_of_int i)"
| "stringify_value (JStr s) = Some (quote s)"
| "stringify_value (JArr xs) = Some (''['' @ intersperse '','' (stringify_elements xs) @ '']'')"
| "stringify_value (JObj kvs) = Some (''{'' @ intersperse '','' (stringify_members kvs) @ ''}'')"
| "stringify_elements [] = []"
| "stringify_elements (x # xs) =
     (case stringify_value x of None \<Rightarrow> ''null'' | Some s \<Rightarrow> s) # stringify_elements xs"
| "stringify_members [] = []"
| "stringify_members (kv # kvs) =
     (case stringify_value (snd kv) of
        None \<Rightarrow> stringify_members kvs
      | Some s \<Rightarrow> (quote (fst kv) @ '':'' @ s) # stringify_members kvs)"

definition JSON_stringify :: "jsval \<Rightarrow> string option" where
  "JSON_stringify v = stringify_value v"

subsection \<open>JSON.parse\<close>

definition is_ws :: "char \<Rightarrow> bool" where
  "is_ws c = (c = CHR 0x20 \<or> c = CHR 0x09 \<or> c = CHR 0x0A \<or> c = CHR 0x0D)"

definition skip_ws :: "string \<Rightarrow> string" where
  "skip_ws s = dropWhile is_ws s"

definition is_digit :: "char \<Rightarrow> bool" where
  "is_digit c = (48 \<le> (of_char c :: nat) \<and> (of_char c :: nat) \<le> 57)"

definition digit_val :: "char \<Rightarrow> nat" where
  "digit_val c = (of_char c :: nat) - 48"

definition nat_of_digits :: "string \<Rightarrow> nat" where
  "nat_of_digits ds = foldl (\<lambda>acc c. 10 * acc + digit_val c) 0 ds"

definition hex_val :: "char \<Rightarrow> nat option" where
  "hex_val c =
     (let n = (of_char c :: nat) in
      if 48 \<le> n \<and> n \<le> 57 then Some (n - 48)
      else if 97 \<le> n \<and> n \<le> 102 then Some (n - 87)
      else if 65 \<le> n \<and> n \<le> 70 then Some (n - 55)
      else None)"

text \<open>
  A number token: an optional minus sign, then \<open>0\<close> or a digit string without a
  leading zero. A fraction or an exponent denotes a value outside the integers of this
  model, and the token is refused.
\<close>

definition parse_number :: "string \<Rightarrow> (jsval \<times> string) option" where
  "parse_number s =
     (let neg = (case s of c # _ \<Rightarrow> c = CHR ''-'' | [] \<Rightarrow> False);
          body = (if neg then tl s else s);
          ds = takeWhile is_digit body;
          rest = dropWhile is_digit body
      in if ds = [] then None
         else if hd ds = CHR ''0'' \<and> length ds > 1 then None
         else if (case rest of c # _ \<Rightarrow> c = CHR ''.'' \<or> c = CHR ''e'' \<or> c = CHR ''E'' | [] \<Rightarrow> False)
           then None
         else Some (JNum (Fin (if neg then - int (nat_of_digits ds) else int (nat_of_digits ds))), rest))"

text \<open>The characters of a string token after its opening quote, up to the closing one.\<close>

fun parse_chars :: "string \<Rightarrow> (string \<times> string) option" where
  "parse_chars [] = None"
| "parse_chars (c # cs) =
     (if c = CHR 0x22 then Some ([], cs)
      else if c = CHR 0x5C then
        (case cs of
           [] \<Rightarrow> None
         | e # cs' \<Rightarrow>
             if e = CHR ''u'' then
               (case cs' of
                  h1 # h2 # h3 # h4 # cs'' \<Rightarrow>
                    (case (hex_val h1, hex_val h2, hex_val h3, hex_val h4) of
                       (Some a, Some b, Some c', Some d) \<Rightarrow>
                         if a = 0 \<and> b = 0 then
                           map_option (\<lambda>(s, r). (char_of (16 * c' + d) # s, r)) (parse_chars cs'')
                         else None
                     | _ \<Rightarrow> None)
                | _ \<Rightarrow> None)
             else
               (case (if e = CHR 0x22 then Some (CHR 0x22)
                      else if e = CHR 0x5C then Some (CHR 0x5C)
                      else if e = CHR ''/'' then Some (CHR ''/'')
                      else if e = CHR ''b'' then Some (CHR 0x08)
                      else if e = CHR ''f'' then Some (CHR 0x0C)
                      else if e = CHR ''n'' then Some (CHR 0x0A)
                      else if e = CHR ''r'' then Some (CHR 0x0D)
                      else if e = CHR ''t'' then Some (CHR 0x09)
                      else None) of
                  None \<Rightarrow> None
                | Some ch \<Rightarrow> map_option (\<lambda>(s, r). (ch # s, r)) (parse_chars cs')))
      else if (of_char c :: nat) < 32 then None
      else map_option (\<lambda>(s, r). (c # s, r)) (parse_chars cs))"

text \<open>
  The recursive descent over values. The first argument bounds the number of calls; each
  call consumes at least one character, so the length of the text is always enough.
\<close>

fun parse_value :: "nat \<Rightarrow> string \<Rightarrow> (jsval \<times> string) option"
and parse_elements :: "nat \<Rightarrow> string \<Rightarrow> (jsval list \<times> string) option"
and parse_members :: "nat \<Rightarrow> string \<Rightarrow> ((string \<times> jsval) list \<times> string) option" where
  "parse_value 0 s = None"
| "parse_value (Suc n) s =
     (case skip_ws s of
        [] \<Rightarrow> None
      | c # cs \<Rightarrow>
          if c = CHR ''n'' then
            (if take 3 cs = ''ull'' then Some (JNull, drop 3 cs) else None)
          else if c = CHR ''t'' then
            (if take 3 cs = ''rue'' then Some (JBool True, drop 3 cs) else None)
          else if c = CHR ''f'' then
            (if take 4 cs = ''alse'' then Some (JBool False, drop 4 cs) else None)
          else if c = CHR 0x22 then
            map_option (\<lambda>(str, r). (JStr str, r)) (parse_chars cs)
          else if c = CHR ''['' then
            (case skip_ws cs of
               [] \<Rightarrow> None
             | d # ds \<Rightarrow>
                 if d = CHR '']'' then Some (JArr [], ds)
                 else map_option (\<lambda>(xs, r). (JArr xs, r)) (parse_elements n cs))
          else if c = CHR ''{'' then
            (case skip_ws cs of
               [] \<Rightarrow> None
             | d # ds \<Rightarrow>
                 if d = CHR ''}'' then Some (JObj [], ds)
                 else map_option (\<lambda>(kvs, r). (JObj kvs, r)) (parse_members n cs))
          else parse_number (c # cs))"
| "parse_elements 0 s = None"
| "parse_elements (Suc n) s =
     (case parse_value n s of
        None \<Rightarrow> None
      | Some (v, r) \<Rightarrow>
          (case skip_ws r of
             [] \<Rightarrow> None
           | d # ds \<Rightarrow>
               if d = CHR '']'' then Some ([v], ds)
               else if d = CHR '','' then
                 map_option (\<lambda>(vs, r'). (v # vs, r')) (parse_elements n ds)
               else None))"
| "parse_members 0 s = None"
| "parse_members (Suc n) s =
     (case skip_ws s of
        [] \<Rightarrow> None
      | q # cs \<Rightarrow>
          if q \<noteq> CHR 0x22 then None
          else
            (case parse_chars cs of
               None \<Rightarrow> None
             | Some (k, r) \<Rightarrow>
                 (case skip_ws r of
                    [] \<Rightarrow> None
                  | colon # r1 \<Rightarrow>
                      if colon \<noteq> CHR '':'' then None
                      else
                        (case parse_value n r1 of
                           None \<Rightarrow> None
                         | Some (v, r2) \<Rightarrow>
                             (case skip_ws r2 of
                                [] \<Rightarrow> None
                              | d # ds \<Rightarrow>
                                  if d = CHR ''}'' then Some ([(k, v)], ds)
                                  else if d = CHR '','' then
                                    map_option (\<lambda>(kvs, r'). ((k, v) # kvs, r')) (parse_members n ds)
                                  else None)))))"

text \<open>\<open>JSON.parse\<close>: a value, then nothing but white space; anything else throws.\<close>

definition JSON_parse :: "string \<Rightarrow> error + jsval" where
  "JSON_parse s =
     (case parse_value (Suc (length s)) s of
        None \<Rightarrow> Inl SyntaxError
      | Some (v, r) \<Rightarrow> if skip_ws r = [] then Inr v else Inl SyntaxError)"

subsection \<open>JSON values\<close>

text \<open>
  The values \<open>JSON.stringify\<close> writes in full: no \<open>undefined\<close> and no \<open>NaN\<close>, at any
  depth.
\<close>

fun is_json :: "jsval \<Rightarrow> bool" where
  "is_json JUndefined = False"
| "is_json JNull = True"
| "is_json (JBool b) = True"
| "is_json (JNum NaN) = False"
| "is_json (JNum (Fin i)) = True"
| "is_json (JStr s) = True"
| "is_json (JArr xs) = list_all is_json xs"
| "is_json (JObj kvs) = list_all (\<lambda>kv. is_json (snd kv)) kvs"

text \<open>
  Two notions about JSON texts: what may follow a value inside a text (nothing, a comma or
  a closing bracket), and the characters a value's own text may begin with (no white
  space and no closing bracket).
\<close>

definition closes :: "string \<Rightarrow> bool" where
  "closes rest = (case rest of [] \<Rightarrow> True | c # _ \<Rightarrow> c = CHR '','' \<or> c = CHR '']'' \<or> c = CHR ''}'')"

definition opener :: "char \<Rightarrow> bool" where
  "opener c = (\<not> is_ws c \<and> c \<noteq> CHR '']'' \<and> c \<noteq> CHR ''}'')"

text \<open>
  A value round-trips when \<open>JSON.stringify\<close> gives a text for it and
  \<open>JSON.parse\<close> reads that text back as the same value.
\<close>

definition round_trips :: "jsval \<Rightarrow> bool" where
  "round_trips v =
     (case JSON_stringify v of None \<Rightarrow> False | Some s \<Rightarrow> JSON_parse s = Inr v)"


section \<open>SettingStorage\<close>

subsection \<open>The web storage object\<close>

text \<open>
  The backend is the web storage object behind \<open>this.storage\<close>
  (\<open>widget.preferences\<close>, or \<open>options.storage\<close>). Its items are a map from string keys
  to string values. The object is shared by every instance built over it, so its items are
  passed to each method and handed back by the methods that write.

  The source never calls \<open>getItem\<close> or \<open>setItem\<close>: it reads and writes
  \<open>this.storage[key]\<close>, a property of the object, and the object answers as the binding
  of the \<open>Storage\<close> interface prescribes. A read finds the members of the object and of its
  prototypes first: the item count \<open>length\<close>, the methods of the interface and what every
  object inherits. Only a key that is no member reads the item, or \<open>undefined\<close> when
  there is none. A write of any key goes to the items.
\<close>

type_synonym backend = "string \<rightharpoonup> string"

definition storage_methods :: "string list" where
  "storage_methods =
     [''key'', ''getItem'', ''setItem'', ''removeItem'', ''clear'',
      ''constructor'', ''toString'', ''toLocaleString'', ''valueOf'', ''hasOwnProperty'',
      ''isPrototypeOf'', ''propertyIsEnumerable'',
      ''__defineGetter__'', ''__defineSetter__'', ''__lookupGetter__'', ''__lookupSetter__'']"

definition is_member :: "string \<Rightarrow> bool" where
  "is_member key = (key = ''length'' \<or> key \<in> set storage_methods \<or> key = ''__proto__'')"

text \<open>
  The number of items. The items are a function, so the count is a fact about them and
  is not found by evaluation.
\<close>

definition item_count :: "backend \<Rightarrow> nat" where
  "item_count st = card (dom st)"

declare item_count_def [code del]

text \<open>What \<open>this.storage[key]\<close> evaluates to; \<open>None\<close> is \<open>undefined\<close>.\<close>

datatype property = Item string | Count nat | Method string | Prototype

definition storage_read :: "backend \<Rightarrow> string \<Rightarrow> property option" where
  "storage_read st key =
     (if key = ''length'' then Some (Count (item_count st))
      else if key \<in> set storage_methods then Some (Method key)
      else if key = ''__proto__'' then Some Prototype
      else map_option Item (st key))"

text \<open>
  \<open>JSON.parse\<close> converts its argument to a string first: an item is its text, the count
  its decimal digits, a method the source text of a native function and the prototype
  the text of an object. The last two are no JSON text in any host.
\<close>

fun property_text :: "property \<Rightarrow> string" where
  "property_text (Item s) = s"
| "property_text (Count n) = string_of_nat n"
| "property_text (Method name) = ''function '' @ name @ ''() { [native code] }''"
| "property_text Prototype = ''[object Object]''"

subsection \<open>The instance\<close>

text \<open>
  An instance as the constructor leaves it: the data properties that the private \<open>init\<close>
  assigns, the variable \<open>firstRun\<close> of the constructor's closure, and \<open>accessors\<close>, the
  names for which \<open>defineAccessors\<close> has defined an accessor property on the instance
  (reading it calls \<open>get\<close>, assigning to it calls \<open>set\<close>). Such a property replaces the
  own property of the same name. The repository has the class a second time without
  \<open>useAccessors\<close> and \<open>defineAccessors\<close>; that variant is an instance with
  \<open>useAccessors\<close> false here.
\<close>

record SettingStorage =
  defaults :: "(string \<times> jsval) list"
  prefix :: string
  initSetting :: string
  globalInit :: bool
  useAccessors :: bool
  firstRun :: bool
  accessors :: "string list"

record options =
  opt_prefix :: "string option"
  opt_initSetting :: "string option"
  opt_globalInit :: "bool option"
  opt_useAccessors :: "bool option"

text \<open>
  The own property \<open>p\<close> of the instance is still the one the constructor first gave it.
  The methods below read \<open>this.defaults\<close>, \<open>this.prefix\<close>, \<open>this.storage\<close>,
  \<open>this.initSetting\<close> and \<open>this.globalInit\<close> as these data properties: each method
  is the method of the source on an instance that has kept the properties it reads. On
  an instance that has not, the read goes through \<open>get\<close>: for \<open>prefix\<close> and
  \<open>storage\<close> that read needs the property itself and never returns, for the others it
  yields whatever is stored under that name.
\<close>

definition kept :: "SettingStorage \<Rightarrow> string \<Rightarrow> bool" where
  "kept this p = (p \<notin> set (accessors this))"

text \<open>\<open>this.get(name)\<close>: \<open>Inl\<close> is the exception thrown by \<open>JSON.parse\<close>.\<close>

definition get :: "SettingStorage \<Rightarrow> backend \<Rightarrow> string \<Rightarrow> error + jsval" where
  "get this st name =
     (case storage_read st (prefix this @ name) of
        None \<Rightarrow> Inr JNull
      | Some data \<Rightarrow> JSON_parse (property_text data))"

text \<open>
  What a web storage object keeps when it is assigned the result of
  \<open>JSON.stringify\<close>: the string, or the text \<open>undefined\<close> when there was none.
\<close>

definition stored :: "jsval \<Rightarrow> string" where
  "stored v = (case JSON_stringify v of None \<Rightarrow> ''undefined'' | Some temp \<Rightarrow> temp)"

text \<open>\<open>this.set(name, value)\<close>.\<close>

definition set_setting :: "SettingStorage \<Rightarrow> backend \<Rightarrow> string \<Rightarrow> jsval \<Rightarrow> backend" where
  "set_setting this st name v = st(prefix this @ name \<mapsto> stored v)"

text \<open>
  The private \<open>getInit\<close> and \<open>setInit\<close>: with \<open>globalInit\<close> the prefix is blanked
  for the one access and put back afterwards.
\<close>

definition getInit :: "SettingStorage \<Rightarrow> backend \<Rightarrow> error + (jsval \<times> SettingStorage)" where
  "getInit this st =
     (if globalInit this then
        (let temp = prefix this;
             this1 = this\<lparr>prefix := []\<rparr>
         in case get this1 st (initSetting this1) of
              Inl e \<Rightarrow> Inl e
            | Inr init \<Rightarrow> Inr (init, this1\<lparr>prefix := temp\<rparr>))
      else
        (case get this st (initSetting this) of
           Inl e \<Rightarrow> Inl e
         | Inr init \<Rightarrow> Inr (init, this)))"

definition setInit :: "SettingStorage \<Rightarrow> backend \<Rightarrow> jsval \<Rightarrow> SettingStorage \<times> backend" where
  "setInit this st v =
     (if globalInit this then
        (let temp = prefix this;
             this1 = this\<lparr>prefix := []\<rparr>;
             st' = set_setting this1 st (initSetting this1) v
         in (this1\<lparr>prefix := temp\<rparr>, st'))
      else (this, set_setting this st (initSetting this) v))"

text \<open>
  The private \<open>defineAccessors\<close>: a descriptor for every declared name that is not one
  of the reserved method names, all defined on the instance at once.
\<close>

definition reserved :: "string list" where
  "reserved = [''init'', ''reset'', ''resetAll'', ''fillDefaults'', ''get'', ''set'', ''getAll'', ''setAll'']"

definition defineAccessors :: "SettingStorage \<Rightarrow> SettingStorage" where
  "defineAccessors this =
     this\<lparr>accessors := filter (\<lambda>name. name \<notin> set reserved) (map fst (defaults this))\<rparr>"

text \<open>
  The constructor \<open>new SettingStorage(defaults, options)\<close> over a backend with items
  \<open>st\<close>. An argument that is \<open>undefined\<close> is \<open>None\<close>; so is an option that is not
  set. \<open>configure\<close> is the assignment of the fields; \<open>SettingStorage_new\<close> then reads
  the init flag, and when that read throws, so does the constructor. The accessors are
  defined last, so the constructor itself reads data properties only.
\<close>

definition configure :: "(string \<times> jsval) list option \<Rightarrow> options option \<Rightarrow> SettingStorage" where
  "configure defs opts =
     (let this0 = \<lparr>defaults = [], prefix = [], initSetting = ''__initialized'',
                    globalInit = False, useAccessors = True, firstRun = False,
                    accessors = []\<rparr>;
          this1 = (case defs of None \<Rightarrow> this0 | Some d \<Rightarrow> this0\<lparr>defaults := d\<rparr>)
      in case opts of
           None \<Rightarrow> this1
         | Some opt \<Rightarrow>
             (let a = (case opt_prefix opt of None \<Rightarrow> this1 | Some p \<Rightarrow> this1\<lparr>prefix := p\<rparr>);
                  b = (case opt_initSetting opt of None \<Rightarrow> a | Some i \<Rightarrow> a\<lparr>initSetting := i\<rparr>);
                  c = (case opt_globalInit opt of None \<Rightarrow> b | Some g \<Rightarrow> b\<lparr>globalInit := g\<rparr>)
              in case opt_useAccessors opt of None \<Rightarrow> c | Some u \<Rightarrow> c\<lparr>useAccessors := u\<rparr>))"

definition SettingStorage_new ::
  "(string \<times> jsval) list option \<Rightarrow> options option \<Rightarrow> backend \<Rightarrow> error + SettingStorage" where
  "SettingStorage_new defs opts st =
     (case getInit (configure defs opts) st of
        Inl e \<Rightarrow> Inl e
      | Inr (init, this) \<Rightarrow>
          (let this1 = (if \<not> truthy init then this\<lparr>firstRun := True\<rparr> else this)
           in Inr (if useAccessors this1 then defineAccessors this1 else this1)))"

text \<open>
  The property \<open>this.firstRun\<close>: the getter over the closure variable, unless a setting
  named \<open>firstRun\<close> is declared and its accessor has replaced the getter.
\<close>

definition this_firstRun :: "SettingStorage \<Rightarrow> backend \<Rightarrow> error + jsval" where
  "this_firstRun this st =
     (if kept this ''firstRun'' then Inr (JBool (firstRun this)) else get this st ''firstRun'')"

subsection \<open>The methods\<close>

text \<open>\<open>this.reset(name)\<close>: the loop over \<open>this.defaults\<close>, then the fall-back.\<close>

fun reset_loop :: "SettingStorage \<Rightarrow> backend \<Rightarrow> (string \<times> jsval) list \<Rightarrow> string \<Rightarrow> backend" where
  "reset_loop this st [] name = set_setting this st name JNull"
| "reset_loop this st (d # ds) name =
     (if fst d = name then set_setting this st name (snd d) else reset_loop this st ds name)"

definition reset :: "SettingStorage \<Rightarrow> backend \<Rightarrow> string \<Rightarrow> backend" where
  "reset this st name = reset_loop this st (defaults this) name"

text \<open>\<open>this.resetAll()\<close>.\<close>

fun resetAll_loop :: "SettingStorage \<Rightarrow> backend \<Rightarrow> (string \<times> jsval) list \<Rightarrow> backend" where
  "resetAll_loop this st [] = st"
| "resetAll_loop this st (d # ds) = resetAll_loop this (set_setting this st (fst d) (snd d)) ds"

definition resetAll :: "SettingStorage \<Rightarrow> backend \<Rightarrow> backend" where
  "resetAll this st = resetAll_loop this st (defaults this)"

text \<open>
  \<open>this.fillDefaults()\<close>: \<open>isDefined\<close> of what \<open>this.storage[key]\<close> reads decides,
  before any deserialization.
\<close>

fun fillDefaults_loop :: "SettingStorage \<Rightarrow> backend \<Rightarrow> (string \<times> jsval) list \<Rightarrow> backend" where
  "fillDefaults_loop this st [] = st"
| "fillDefaults_loop this st (d # ds) =
     (if storage_read st (prefix this @ fst d) = None
      then fillDefaults_loop this (set_setting this st (fst d) (snd d)) ds
      else fillDefaults_loop this st ds)"

definition fillDefaults :: "SettingStorage \<Rightarrow> backend \<Rightarrow> backend" where
  "fillDefaults this st = fillDefaults_loop this st (defaults this)"

text \<open>
  \<open>this.init()\<close>. It tests the property \<open>this.firstRun\<close>; when reading that throws,
  the defaults have been filled in already.
\<close>

definition init :: "SettingStorage \<Rightarrow> backend \<Rightarrow> error + (SettingStorage \<times> backend)" where
  "init this st =
     (let st1 = fillDefaults this st
      in case this_firstRun this st1 of
           Inl e \<Rightarrow> Inl e
         | Inr first \<Rightarrow> Inr (if truthy first then setInit this st1 (JBool True) else (this, st1)))"

text \<open>\<open>this.getAll()\<close>: the result object as a map from property names to values.\<close>

fun getAll_loop ::
  "SettingStorage \<Rightarrow> backend \<Rightarrow> (string \<times> jsval) list \<Rightarrow> (string \<rightharpoonup> jsval) \<Rightarrow> error + (string \<rightharpoonup> jsval)" where
  "getAll_loop this st [] data = Inr data"
| "getAll_loop this st (d # ds) data =
     (case get this st (fst d) of
        Inl e \<Rightarrow> Inl e
      | Inr v \<Rightarrow> getAll_loop this st ds (data(fst d \<mapsto> v)))"

definition getAll :: "SettingStorage \<Rightarrow> backend \<Rightarrow> error + (string \<rightharpoonup> jsval)" where
  "getAll this st = getAll_loop this st (defaults this) Map.empty"

text \<open>\<open>this.setAll(data)\<close>: the properties of \<open>data\<close> in enumeration order.\<close>

fun setAll :: "SettingStorage \<Rightarrow> backend \<Rightarrow> (string \<times> jsval) list \<Rightarrow> backend" where
  "setAll this st [] = st"
| "setAll this st (kv # kvs) = setAll this (set_setting this st (fst kv) (snd kv)) kvs"

text \<open>
  A call of one public method on an instance and its backend, and a sequence of calls.
  The state afterwards is the same whether a reading method returned or threw; an
  \<open>init()\<close> that throws has filled in the defaults. Reading an accessor property is a
  call of \<open>get\<close>, assigning to one a call of \<open>set\<close>.
\<close>

datatype api_call =
    Init
  | Reset string
  | ResetAll
  | FillDefaults
  | Get string
  | Set string jsval
  | GetAll
  | SetAll "(string \<times> jsval) list"

fun call :: "api_call \<Rightarrow> SettingStorage \<times> backend \<Rightarrow> SettingStorage \<times> backend" where
  "call Init (this, st) =
     (case init this st of Inl e \<Rightarrow> (this, fillDefaults this st) | Inr s \<Rightarrow> s)"
| "call (Reset name) (this, st) = (this, reset this st name)"
| "call ResetAll (this, st) = (this, resetAll this st)"
| "call FillDefaults (this, st) = (this, fillDefaults this st)"
| "call (Get name) (this, st) = (this, st)"
| "call (Set name v) (this, st) = (this, set_setting this st name v)"
| "call GetAll (this, st) = (this, st)"
| "call (SetAll data) (this, st) = (this, setAll this st data)"

fun calls :: "api_call list \<Rightarrow> SettingStorage \<times> backend \<Rightarrow> SettingStorage \<times> backend" where
  "calls [] s = s"
| "calls (m # ms) s = calls ms (call m s)"

subsection \<open>Notions used in the statements about SettingStorage\<close>

text \<open>The backend key of the init flag.\<close>

definition init_key :: "SettingStorage \<Rightarrow> string" where
  "init_key this = (if globalInit this then initSetting this else prefix this @ initSetting this)"

text \<open>
  The own properties that the methods read and a declared name can replace: an instance is
  plain when it has kept them all, which it has when no setting is declared under one of
  these names, or when it was made with \<open>useAccessors\<close> false.
\<close>

definition plain :: "SettingStorage \<Rightarrow> bool" where
  "plain this =
     list_all (kept this)
       [''defaults'', ''prefix'', ''storage'', ''initSetting'', ''globalInit'', ''firstRun'']"

text \<open>
  The instance that the constructor returns from the configured fields \<open>c\<close> when its
  test of the init flag gave \<open>b\<close>.
\<close>

definition made :: "SettingStorage \<Rightarrow> bool \<Rightarrow> SettingStorage" where
  "made c b =
     (let this1 = c\<lparr>firstRun := b\<rparr>
      in if useAccessors this1 then defineAccessors this1 else this1)"


section \<open>Conversions of the host\<close>

text \<open>
  The conversions ECMAScript applies where the options page mixes strings, numbers and
  stored values: \<open>ToString\<close>, \<open>ToNumber\<close>, \<open>parseFloat\<close>, \<open>isNaN\<close>, the relational
  comparison and the loose equality \<open>==\<close>. A numeric text denotes a number of this model
  when it is an integer literal; other numeric forms (fraction, exponent, hexadecimal,
  \<open>Infinity\<close>) are outside the integers of this model and read as \<open>NaN\<close>.
\<close>

fun ToString :: "jsval \<Rightarrow> string"
and join_elements :: "jsval list \<Rightarrow> string list" where
  "ToString JUndefined = ''undefined''"
| "ToString JNull = ''null''"
| "ToString (JBool b) = (if b then ''true'' else ''false'')"
| "ToString (JNum NaN) = ''NaN''"
| "ToString (JNum (Fin i)) = string_of_int i"
| "ToString (JStr s) = s"
| "ToString (JArr xs) = intersperse '','' (join_elements xs)"
| "ToString (JObj kvs) = ''[object Object]''"
| "join_elements [] = []"
| "join_elements (x # xs) =
     (if x = JUndefined \<or> x = JNull then [] else ToString x) # join_elements xs"

definition is_js_ws :: "char \<Rightarrow> bool" where
  "is_js_ws c =
     (c = CHR 0x20 \<or> c = CHR 0x09 \<or> c = CHR 0x0A \<or> c = CHR 0x0B \<or> c = CHR 0x0C \<or> c = CHR 0x0D)"

definition trim :: "string \<Rightarrow> string" where
  "trim s = rev (dropWhile is_js_ws (rev (dropWhile is_js_ws s)))"

text \<open>The sign of a numeric text and what follows it.\<close>

definition split_sign :: "bool \<Rightarrow> string \<Rightarrow> bool \<times> string" where
  "split_sign allow_plus s =
     (case s of
        [] \<Rightarrow> (False, [])
      | c # cs \<Rightarrow>
          if c = CHR ''-'' then (True, cs)
          else if allow_plus \<and> c = CHR ''+'' then (False, cs)
          else (False, s))"

definition signed_num :: "bool \<Rightarrow> string \<Rightarrow> jsnum" where
  "signed_num neg ds = Fin (if neg then - int (nat_of_digits ds) else int (nat_of_digits ds))"

text \<open>\<open>ToNumber\<close> applied to a string.\<close>

definition StringToNumber :: "string \<Rightarrow> jsnum" where
  "StringToNumber s =
     (let t = trim s in
      if t = [] then Fin 0
      else (case split_sign True t of
              (neg, body) \<Rightarrow>
                if body \<noteq> [] \<and> list_all is_digit body then signed_num neg body else NaN))"

fun ToNumber :: "jsval \<Rightarrow> jsnum" where
  "ToNumber JUndefined = NaN"
| "ToNumber JNull = Fin 0"
| "ToNumber (JBool b) = Fin (if b then 1 else 0)"
| "ToNumber (JNum n) = n"
| "ToNumber (JStr s) = StringToNumber s"
| "ToNumber (JArr xs) = StringToNumber (ToString (JArr xs))"
| "ToNumber (JObj kvs) = StringToNumber (ToString (JObj kvs))"

definition parseFloat :: "string \<Rightarrow> jsnum" where
  "parseFloat s =
     (case split_sign True (dropWhile is_js_ws s) of
        (neg, body) \<Rightarrow>
          (let ds = takeWhile is_digit body in if ds = [] then NaN else signed_num neg ds))"

definition isNaN :: "jsval \<Rightarrow> bool" where
  "isNaN v = (ToNumber v = NaN)"

text \<open>\<open>x < y\<close> with a number on the right: false as soon as a side is \<open>NaN\<close>.\<close>

definition js_less :: "jsval \<Rightarrow> jsnum \<Rightarrow> bool" where
  "js_less x y = (case (ToNumber x, y) of (Fin a, Fin b) \<Rightarrow> a < b | _ \<Rightarrow> False)"

definition js_greater :: "jsval \<Rightarrow> jsnum \<Rightarrow> bool" where
  "js_greater x y = (case (ToNumber x, y) of (Fin a, Fin b) \<Rightarrow> a > b | _ \<Rightarrow> False)"

definition num_eq :: "jsnum \<Rightarrow> jsnum \<Rightarrow> bool" where
  "num_eq x y = (case (x, y) of (Fin a, Fin b) \<Rightarrow> a = b | _ \<Rightarrow> False)"

text \<open>
  The loose equality \<open>x == y\<close>. Two objects are equal when they are the same object; the
  source compares a string or a number of its own with a value read from storage, so
  that case is two different objects.
\<close>

fun loose_eq :: "jsval \<Rightarrow> jsval \<Rightarrow> bool" where
  "loose_eq JUndefined y = (y = JUndefined \<or> y = JNull)"
| "loose_eq JNull y = (y = JUndefined \<or> y = JNull)"
| "loose_eq (JNum n) y =
     (case y of
        JUndefined \<Rightarrow> False
      | JNull \<Rightarrow> False
      | _ \<Rightarrow> num_eq n (ToNumber y))"
| "loose_eq (JStr s) y =
     (case y of
        JUndefined \<Rightarrow> False
      | JNull \<Rightarrow> False
      | JStr t \<Rightarrow> s = t
      | JArr xs \<Rightarrow> s = ToString (JArr xs)
      | JObj kvs \<Rightarrow> s = ToString (JObj kvs)
      | _ \<Rightarrow> num_eq (StringToNumber s) (ToNumber y))"
| "loose_eq (JBool b) y =
     (case y of
        JUndefined \<Rightarrow> False
      | JNull \<Rightarrow> False
      | _ \<Rightarrow> num_eq (Fin (if b then 1 else 0)) (ToNumber y))"
| "loose_eq (JArr xs) y =
     (case y of
        JNum n \<Rightarrow> num_eq (ToNumber (JArr xs)) n
      | JStr t \<Rightarrow> ToString (JArr xs) = t
      | JBool b \<Rightarrow> num_eq (ToNumber (JArr xs)) (Fin (if b then 1 else 0))
      | _ \<Rightarrow> False)"
| "loose_eq (JObj kvs) y =
     (case y of
        JNum n \<Rightarrow> num_eq (ToNumber (JObj kvs)) n
      | JStr t \<Rightarrow> ToString (JObj kvs) = t
      | JBool b \<Rightarrow> num_eq (ToNumber (JObj kvs)) (Fin (if b then 1 else 0))
      | _ \<Rightarrow> False)"

definition toLowerCase :: "string \<Rightarrow> string" where
  "toLowerCase s =
     map (\<lambda>c. if 65 \<le> (of_char c :: nat) \<and> (of_char c :: nat) \<le> 90
               then char_of ((of_char c :: nat) + 32) else c) s"


section \<open>OptionsPage\<close>

subsection \<open>Form controls and the global scope\<close>

text \<open>
  A form control of the document, with the properties the options page reads and writes:
  \<open>elength\<close> is the control's own \<open>length\<close> property, which a \<open>select\<close> has (the
  number of its options) and an \<open>input\<close> or a \<open>textarea\<close> has not; \<open>attrs\<close> are the
  content attributes \<open>getAttribute\<close> reads; \<open>form\<close> identifies the form that owns the
  control. The document is the list of its controls in document order, and a control is
  addressed by its position.
\<close>

record element =
  tagName :: string
  etype :: string
  ename :: string
  evalue :: string
  checked :: bool
  form :: "nat option"
  elength :: "nat option"
  attrs :: "string \<rightharpoonup> string"

text \<open>
  A property of \<open>window\<close>: a function, which can be called and may throw, or any other
  value.
\<close>

datatype global = GFun "jsval \<Rightarrow> error + jsval" | GVal jsval

type_synonym window = "string \<rightharpoonup> global"

type_synonym page = "element list \<times> backend"

text \<open>The private \<open>hash\<close>: the items of a comma-separated list, as a lookup table.\<close>

fun split_on :: "char \<Rightarrow> string \<Rightarrow> string list" where
  "split_on sep [] = [[]]"
| "split_on sep (c # cs) =
     (case split_on sep cs of
        [] \<Rightarrow> [[c]]
      | w # ws \<Rightarrow> if c = sep then [] # w # ws else (c # w) # ws)"

definition hash :: "string \<Rightarrow> string set" where
  "hash str = set (split_on CHR '','' str)"

definition skip :: "string set" where
  "skip = hash ''hidden,submit,image,file,reset,button''"

definition numeric :: "string set" where
  "numeric = hash ''number,range''"

definition checkable :: "string set" where
  "checkable = hash ''checkbox,radio''"

definition radio :: "string set" where
  "radio = hash ''radio''"

subsection \<open>Properties of a control supplied by the host\<close>

text \<open>
  The reflected \<open>min\<close> and \<open>max\<close> attributes: the empty string when the attribute is
  not set.
\<close>

definition emin :: "element \<Rightarrow> string" where
  "emin element = (case attrs element ''min'' of None \<Rightarrow> [] | Some s \<Rightarrow> s)"

definition emax :: "element \<Rightarrow> string" where
  "emax element = (case attrs element ''max'' of None \<Rightarrow> [] | Some s \<Rightarrow> s)"

text \<open>
  A valid number text of a numeric control, within the integers of this model: an
  optional minus sign and digits.
\<close>

definition valid_number :: "string \<Rightarrow> bool" where
  "valid_number s =
     (case split_sign False s of (neg, body) \<Rightarrow> body \<noteq> [] \<and> list_all is_digit body)"

text \<open>
  The assignment \<open>element.value = v\<close>: \<open>null\<close> is the empty string, any other value its
  \<open>ToString\<close>; a numeric control then keeps a valid number text and blanks anything
  else. The clamping a browser may apply by itself to a \<open>range\<close> control, and the
  sanitization of the other control types, are not modelled: they keep the text.
\<close>

definition set_value :: "element \<Rightarrow> jsval \<Rightarrow> element" where
  "set_value element v =
     (let s = (if v = JNull then [] else ToString v)
      in element\<lparr>evalue :=
           (if toLowerCase (etype element) \<in> numeric \<and> \<not> valid_number s then [] else s)\<rparr>)"

definition valueAsNumber :: "element \<Rightarrow> jsnum" where
  "valueAsNumber element =
     (if valid_number (evalue element)
      then (case split_sign False (evalue element) of (neg, body) \<Rightarrow> signed_num neg body)
      else NaN)"

text \<open>
  \<open>element.form.elements[name]\<close>: the controls of the form with that name. When there is
  exactly one, the host returns the control itself, not a list, and a loop up to
  \<open>inputs.length\<close> finds no checked input in it.
\<close>

definition form_elements_named :: "element list \<Rightarrow> nat \<Rightarrow> string \<Rightarrow> element list" where
  "form_elements_named doc f name =
     (let found = filter (\<lambda>e. form e = Some f \<and> ename e = name) doc
      in if length found = 1 then [] else found)"

text \<open>
  The assignment \<open>element.checked = b\<close>. Checking a radio button unchecks the other
  radio buttons of its group: those with the same name, which is not empty, and the same
  form owner.
\<close>

definition set_checked :: "element list \<Rightarrow> nat \<Rightarrow> bool \<Rightarrow> element list" where
  "set_checked doc i b =
     (let element = doc ! i;
          doc1 = doc[i := element\<lparr>checked := b\<rparr>]
      in if b \<and> toLowerCase (etype element) = ''radio'' \<and> ename element \<noteq> []
         then map (\<lambda>j. if j \<noteq> i \<and> toLowerCase (etype (doc1 ! j)) = ''radio'' \<and>
                          ename (doc1 ! j) = ename element \<and> form (doc1 ! j) = form element
                       then (doc1 ! j)\<lparr>checked := False\<rparr> else doc1 ! j)
                [0 ..< length doc1]
         else doc1)"

subsection \<open>The private functions\<close>

definition getRadioValue :: "element list \<Rightarrow> element \<Rightarrow> jsval" where
  "getRadioValue doc element =
     (let name = ename element;
          inputs =
            (case form element of
               Some f \<Rightarrow> form_elements_named doc f name
             | None \<Rightarrow>
                 filter (\<lambda>e. toLowerCase (tagName e) = ''input'' \<and> toLowerCase (etype e) = ''radio'' \<and>
                              ename e = name) doc)
      in case find checked inputs of
           Some input \<Rightarrow> JStr (evalue input)
         | None \<Rightarrow> JNull)"

text \<open>
  \<open>getTransformFunction(element, type)\<close>: \<open>getAttribute\<close> gives \<open>null\<close> or a string, and
  a string is looked up in \<open>window\<close>. \<open>None\<close> is the result \<open>null\<close> or \<open>undefined\<close>.
\<close>

definition getTransformFunction :: "window \<Rightarrow> element \<Rightarrow> string \<Rightarrow> global option" where
  "getTransformFunction w element type =
     (case attrs element (''data-'' @ type) of
        None \<Rightarrow> None
      | Some func \<Rightarrow> w func)"

text \<open>
  The two lines \<open>if (filter) value = filter(value)\<close>: a falsy filter is skipped, a
  function is called, and calling any other truthy value throws a \<open>TypeError\<close>.
\<close>

definition apply_filter :: "global option \<Rightarrow> jsval \<Rightarrow> error + jsval" where
  "apply_filter func v =
     (case func of
        None \<Rightarrow> Inr v
      | Some (GFun f) \<Rightarrow> f v
      | Some (GVal x) \<Rightarrow> if truthy x then Inl TypeError else Inr v)"

text \<open>
  \<open>coerceToLimits(element, value)\<close>. The assignments \<open>value = element.value = x\<close> give
  \<open>value\<close> the assigned \<open>x\<close> itself: the string \<open>element.min\<close> or \<open>element.max\<close>, or the
  number \<open>0\<close>.
\<close>

definition coerceToLimits :: "element \<Rightarrow> jsval \<Rightarrow> element \<times> jsval" where
  "coerceToLimits element v0 =
     (let value = (if truthy v0 then v0 else JNum (valueAsNumber element));
          (element1, value1) =
            (if emin element \<noteq> [] \<and> js_less value (parseFloat (emin element))
             then (set_value element (JStr (emin element)), JStr (emin element))
             else (element, value));
          (element2, value2) =
            (if emax element1 \<noteq> [] \<and> js_greater value1 (parseFloat (emax element1))
             then (set_value element1 (JStr (emax element1)), JStr (emax element1))
             else (element1, value1))
      in if isNaN value2
         then (set_value element2 (JNum (Fin 0)), JNum (Fin 0))
         else (element2, value2))"

text \<open>
  \<open>elementChanged(e)\<close>, called with the control itself. A control that is not there is
  \<open>undefined\<close>, and reading a property of it throws. The state after a throw is not
  modelled.
\<close>

definition elementChanged :: "SettingStorage \<Rightarrow> window \<Rightarrow> page \<Rightarrow> nat \<Rightarrow> error + page" where
  "elementChanged storage w pg i =
     (case pg of (doc, st) \<Rightarrow>
        if i \<ge> length doc then Inl TypeError
        else
          (let element = doc ! i;
               type = toLowerCase (etype element);
               name = ename element;
               (element1, value) =
                 (if type \<in> checkable then
                    (element, if type \<in> radio then getRadioValue doc element
                              else JBool (checked element))
                  else if type \<in> numeric then
                    coerceToLimits element (JNum (valueAsNumber element))
                  else (element, JStr (evalue element)))
           in case apply_filter (getTransformFunction w element1 ''savefunc'') value of
                Inl e \<Rightarrow> Inl e
              | Inr v \<Rightarrow> Inr (doc[i := element1], set_setting storage st name v)))"

text \<open>\<open>updateElement(element)\<close>.\<close>

definition updateElement :: "SettingStorage \<Rightarrow> window \<Rightarrow> page \<Rightarrow> nat \<Rightarrow> error + page" where
  "updateElement storage w pg i =
     (case pg of (doc, st) \<Rightarrow>
        if i \<ge> length doc then Inl TypeError
        else
          (let element = doc ! i;
               name = ename element;
               type = toLowerCase (etype element)
           in case get storage st name of
                Inl e \<Rightarrow> Inl e
              | Inr stored_value \<Rightarrow>
                  (case apply_filter (getTransformFunction w element ''loadfunc'') stored_value of
                     Inl e \<Rightarrow> Inl e
                   | Inr value \<Rightarrow>
                       if type \<in> checkable then
                         (if type \<in> radio
                          then Inr (set_checked doc i (loose_eq (JStr (evalue element)) value), st)
                          else Inr (set_checked doc i (truthy value), st))
                       else
                         (let element1 = set_value element value in
                          if type \<in> numeric then
                            (case coerceToLimits element1 JUndefined of
                               (element2, coerced) \<Rightarrow>
                                 if \<not> loose_eq coerced value
                                 then elementChanged storage w (doc[i := element2], st) i
                                 else Inr (doc[i := element2], st))
                          else Inr (doc[i := element1], st)))))"

subsection \<open>update and save\<close>

text \<open>
  The argument of \<open>update\<close> and \<open>save\<close>: the name of a setting, one control, or a list
  of controls.
\<close>

datatype target = TName string | TElement nat | TElements "nat list"

fun each :: "(page \<Rightarrow> nat \<Rightarrow> error + page) \<Rightarrow> page \<Rightarrow> nat list \<Rightarrow> error + page" where
  "each f pg [] = Inr pg"
| "each f pg (i # is) = (case f pg i of Inl e \<Rightarrow> Inl e | Inr pg' \<Rightarrow> each f pg' is)"

text \<open>\<open>document.getElementsByName(name)\<close>, as positions in the document.\<close>

definition getElementsByName :: "element list \<Rightarrow> string \<Rightarrow> nat list" where
  "getElementsByName doc name = filter (\<lambda>i. ename (doc ! i) = name) [0 ..< length doc]"

text \<open>
  One control as the argument. A control that is not there is \<open>null\<close>, and the method
  returns at once. A control that has a \<open>length\<close> of its own is walked like a list: its
  items are its options, which have no \<open>type\<close>, so the first of them throws.
\<close>

definition on_target :: "(page \<Rightarrow> nat \<Rightarrow> error + page) \<Rightarrow> page \<Rightarrow> nat \<Rightarrow> error + page" where
  "on_target f pg i =
     (if i \<ge> length (fst pg) then Inr pg
      else (case elength (fst pg ! i) of
              None \<Rightarrow> f pg i
            | Some n \<Rightarrow> if n = 0 then Inr pg else Inl TypeError))"

definition update :: "SettingStorage \<Rightarrow> window \<Rightarrow> page \<Rightarrow> target \<Rightarrow> error + page" where
  "update storage w pg t =
     (case t of
        TName name \<Rightarrow>
          if name = [] then Inr pg
          else each (updateElement storage w) pg (getElementsByName (fst pg) name)
      | TElement i \<Rightarrow> on_target (updateElement storage w) pg i
      | TElements is \<Rightarrow> each (updateElement storage w) pg is)"

text \<open>
  \<open>save\<close> looks a name up with \<open>document.querySelector\<close> and an attribute selector
  that puts the name between quotation marks, built without escaping. A name stands for
  itself between the quotation marks when it has no
  quotation mark, backslash or line break; then the selector finds the first control of
  that name. Any other name gives a selector that is not the one meant: the host refuses
  it, unless the name was made up to read as selector syntax, which is taken as refused
  here too.
\<close>

definition verbatim :: "string \<Rightarrow> bool" where
  "verbatim name =
     list_all (\<lambda>c. c \<noteq> CHR 0x22 \<and> c \<noteq> CHR 0x5C \<and> c \<noteq> CHR 0x0A \<and> c \<noteq> CHR 0x0C \<and> c \<noteq> CHR 0x0D) name"

definition querySelector_name :: "element list \<Rightarrow> string \<Rightarrow> error + nat option" where
  "querySelector_name doc name =
     (if verbatim name
      then Inr (case getElementsByName doc name of [] \<Rightarrow> None | i # _ \<Rightarrow> Some i)
      else Inl SyntaxError)"

text \<open>Without a control of that name, \<open>save\<close> reads \<open>null.length\<close>.\<close>

definition save :: "SettingStorage \<Rightarrow> window \<Rightarrow> page \<Rightarrow> target \<Rightarrow> error + page" where
  "save storage w pg t =
     (case t of
        TName name \<Rightarrow>
          if name = [] then Inr pg
          else (case querySelector_name (fst pg) name of
                  Inl e \<Rightarrow> Inl e
                | Inr None \<Rightarrow> Inl TypeError
                | Inr (Some i) \<Rightarrow> on_target (elementChanged storage w) pg i)
      | TElement i \<Rightarrow> on_target (elementChanged storage w) pg i
      | TElements is \<Rightarrow> each (elementChanged storage w) pg is)"

section \<open>Notions used in the statements about the options page\<close>

text \<open>
  A transform reference of a control is unresolved when the attribute is not set, or the
  name it gives is not defined in \<open>window\<close>, or the value found there is falsy.
\<close>

definition unresolved :: "window \<Rightarrow> element \<Rightarrow> string \<Rightarrow> bool" where
  "unresolved w element type =
     (case getTransformFunction w element type of
        None \<Rightarrow> True
      | Some (GFun f) \<Rightarrow> False
      | Some (GVal x) \<Rightarrow> \<not> truthy x)"

text \<open>The same control with that transform not declared.\<close>

definition without_transform :: "string \<Rightarrow> element \<Rightarrow> element" where
  "without_transform type element =
     element\<lparr>attrs := (attrs element)(''data-'' @ type := None)\<rparr>"

text \<open>What a page shows and stores: the value and checked state of each control, and the backend.\<close>

definition view :: "page \<Rightarrow> (string \<times> bool) list \<times> backend" where
  "view pg = (map (\<lambda>e. (evalue e, checked e)) (fst pg), snd pg)"

text \<open>
  Two controls that are the same, or the same up to a declaration of that transform which
  is unresolved on the one that has it; and two pages of such controls over one backend.
\<close>

definition alike :: "window \<Rightarrow> string \<Rightarrow> element \<Rightarrow> element \<Rightarrow> bool" where
  "alike w type x y = (y = x \<or> (unresolved w x type \<and> y = without_transform type x))"

definition alike_pages :: "window \<Rightarrow> string \<Rightarrow> error + page \<Rightarrow> error + page \<Rightarrow> bool" where
  "alike_pages w type r r' =
     (case (r, r') of
        (Inl e, Inl e') \<Rightarrow> e = e'
      | (Inr (d, s), Inr (d', s')) \<Rightarrow> list_all2 (alike w type) d d' \<and> s = s'
      | _ \<Rightarrow> False)"

text \<open>A target that is not a name, or is a name that stands for itself in a selector.\<close>

definition by_verbatim_name :: "target \<Rightarrow> bool" where
  "by_verbatim_name t = (case t of TName name \<Rightarrow> verbatim name | _ \<Rightarrow> True)"


section \<open>Properties of the JSON codec\<close>

subsection \<open>Number texts\<close>

lemma of_char_digit_char: "d < 10 \<Longrightarrow> (of_char (digit_char d) :: nat) = 48 + d"
  by (simp add: digit_char_def)

lemma is_digit_digit_char: "d < 10 \<Longrightarrow> is_digit (digit_char d)"
  by (simp add: is_digit_def of_char_digit_char)

lemma digit_val_digit_char: "d < 10 \<Longrightarrow> digit_val (digit_char d) = d"
  by (simp add: digit_val_def of_char_digit_char)

lemma digits_string_of_nat: "list_all is_digit (string_of_nat n)"
proof (induction n rule: string_of_nat.induct)
  case (1 n)
  show ?case
  proof (cases "n < 10")
    case True
    then show ?thesis by (subst string_of_nat.simps) (simp add: is_digit_digit_char)
  next
    case False
    with 1 show ?thesis by (subst string_of_nat.simps) (simp add: is_digit_digit_char)
  qed
qed

lemma string_of_nat_not_Nil: "string_of_nat n \<noteq> []"
  by (subst string_of_nat.simps) simp

lemma nat_of_digits_snoc: "nat_of_digits (ds @ [c]) = 10 * nat_of_digits ds + digit_val c"
  by (simp add: nat_of_digits_def)

lemma nat_of_digits_string_of_nat: "nat_of_digits (string_of_nat n) = n"
proof (induction n rule: string_of_nat.induct)
  case (1 n)
  show ?case
  proof (cases "n < 10")
    case True
    then show ?thesis
      by (subst string_of_nat.simps) (simp add: nat_of_digits_def digit_val_digit_char)
  next
    case False
    with 1 show ?thesis
      by (subst string_of_nat.simps) (simp add: nat_of_digits_snoc digit_val_digit_char)
  qed
qed

lemma hd_string_of_nat: "hd (string_of_nat n) = CHR ''0'' \<Longrightarrow> n = 0"
proof (induction n rule: string_of_nat.induct)
  case (1 n)
  show ?case
  proof (cases "n < 10")
    case True
    with 1(2) have "digit_char n = CHR ''0''"
      by (subst (asm) string_of_nat.simps) simp
    then have "(of_char (digit_char n) :: nat) = of_char (CHR ''0'')" by simp
    with True show ?thesis by (simp add: of_char_digit_char)
  next
    case False
    with 1(2) have "hd (string_of_nat (n div 10)) = CHR ''0''"
      by (subst (asm) string_of_nat.simps) (simp add: string_of_nat_not_Nil)
    with 1(1) False have "n div 10 = 0" by simp
    with False show ?thesis by simp
  qed
qed

lemma string_of_nat_0: "string_of_nat 0 = ''0''"
  by code_simp

lemma digit_not_ws: "is_digit c \<Longrightarrow> \<not> is_js_ws c"
  by (auto simp: is_js_ws_def is_digit_def)

lemma string_of_int_not_Nil: "string_of_int i \<noteq> []"
  by (simp add: string_of_int_def string_of_nat_not_Nil)

lemma last_string_of_nat_digit: "is_digit (last (string_of_nat n))"
  using digits_string_of_nat [of n] string_of_nat_not_Nil [of n]
  by (metis last_in_set list_all_iff)

lemma not_digit_minus: "\<not> is_digit CHR ''-''"
  by (simp add: is_digit_def)

lemma hd_string_of_nat_digit: "is_digit (hd (string_of_nat n))"
  using digits_string_of_nat [of n] string_of_nat_not_Nil [of n]
  by (cases "string_of_nat n") simp_all

lemma hd_string_of_nat_not_minus: "hd (string_of_nat n) \<noteq> CHR ''-''"
  using hd_string_of_nat_digit [of n] not_digit_minus by auto

lemma split_sign_string_of_int:
  "split_sign p (string_of_int i) = (i < 0, string_of_nat (nat \<bar>i\<bar>))"
proof (cases "i < 0")
  case True
  then show ?thesis by (simp add: split_sign_def string_of_int_def)
next
  case False
  obtain c cs where s: "string_of_nat (nat i) = c # cs"
    using string_of_nat_not_Nil [of "nat i"] by (cases "string_of_nat (nat i)") auto
  have d: "is_digit c" using hd_string_of_nat_digit [of "nat i"] s by simp
  then have "c \<noteq> CHR ''-''" "c \<noteq> CHR ''+''" by (auto simp: is_digit_def)
  with False s show ?thesis by (simp add: split_sign_def string_of_int_def)
qed

lemma signed_num_string_of_nat: "signed_num (i < 0) (string_of_nat (nat \<bar>i\<bar>)) = Fin i"
  by (simp add: signed_num_def nat_of_digits_string_of_nat)

lemma valid_number_string_of_int: "valid_number (string_of_int i)"
  by (simp add: valid_number_def split_sign_string_of_int digits_string_of_nat string_of_nat_not_Nil)

lemma takeWhile_all: "list_all P xs \<Longrightarrow> takeWhile P xs = xs"
  by (induction xs) auto

lemma hd_string_of_int_not_ws: "\<not> is_js_ws (hd (string_of_int i))"
proof (cases "i < 0")
  case True
  then show ?thesis by (simp add: string_of_int_def is_js_ws_def)
next
  case False
  then show ?thesis
    using digit_not_ws [OF hd_string_of_nat_digit [of "nat i"]] by (simp add: string_of_int_def)
qed

lemma last_string_of_int_not_ws: "\<not> is_js_ws (last (string_of_int i))"
  using digit_not_ws [OF last_string_of_nat_digit]
  by (simp add: string_of_int_def string_of_nat_not_Nil)

lemma dropWhile_hd: "xs \<noteq> [] \<Longrightarrow> \<not> P (hd xs) \<Longrightarrow> dropWhile P xs = xs"
  by (cases xs) auto

lemma parseFloat_string_of_int: "parseFloat (string_of_int i) = Fin i"
proof -
  have "dropWhile is_js_ws (string_of_int i) = string_of_int i"
    by (rule dropWhile_hd) (simp_all add: string_of_int_not_Nil hd_string_of_int_not_ws)
  then show ?thesis
    by (simp add: parseFloat_def split_sign_string_of_int takeWhile_all digits_string_of_nat
        string_of_nat_not_Nil signed_num_string_of_nat Let_def)
qed

lemma trim_string_of_int: "trim (string_of_int i) = string_of_int i"
proof -
  have a: "dropWhile is_js_ws (string_of_int i) = string_of_int i"
    by (rule dropWhile_hd) (simp_all add: string_of_int_not_Nil hd_string_of_int_not_ws)
  have "dropWhile is_js_ws (rev (string_of_int i)) = rev (string_of_int i)"
    by (rule dropWhile_hd)
       (simp_all add: string_of_int_not_Nil hd_rev last_string_of_int_not_ws)
  with a show ?thesis by (simp add: trim_def)
qed

lemma StringToNumber_string_of_int: "StringToNumber (string_of_int i) = Fin i"
  by (simp add: StringToNumber_def trim_string_of_int split_sign_string_of_int
      digits_string_of_nat string_of_nat_not_Nil signed_num_string_of_nat string_of_int_not_Nil)

subsection \<open>String tokens\<close>

lemma hex_val_hex_char: "d < 16 \<Longrightarrow> hex_val (hex_char d) = Some d"
  by (auto simp: hex_val_def hex_char_def Let_def)

lemma char_of_div_mod_16: "char_of (16 * ((of_char c :: nat) div 16) + (of_char c :: nat) mod 16) = c"
  by simp

lemma parse_chars_escape:
  "parse_chars (escape_char c @ r) = map_option (\<lambda>(s, r'). (c # s, r')) (parse_chars r)"
proof -
  consider (q) "c = CHR 0x22" | (b) "c = CHR 0x5C" | (c8) "c = CHR 0x08" | (cC) "c = CHR 0x0C"
    | (cA) "c = CHR 0x0A" | (cD) "c = CHR 0x0D" | (c9) "c = CHR 0x09"
    | (u) "c \<noteq> CHR 0x22" "c \<noteq> CHR 0x5C" "c \<noteq> CHR 0x08" "c \<noteq> CHR 0x0C" "c \<noteq> CHR 0x0A"
          "c \<noteq> CHR 0x0D" "c \<noteq> CHR 0x09" "(of_char c :: nat) < 32"
    | (p) "c \<noteq> CHR 0x22" "c \<noteq> CHR 0x5C" "\<not> (of_char c :: nat) < 32"
    by blast
  then show ?thesis
  proof cases
    case u
    have h: "hex_val CHR ''0'' = Some 0" by (simp add: hex_val_def)
    have d: "(of_char c :: nat) div 16 < 16" "(of_char c :: nat) mod 16 < 16"
      using u(8) by simp_all
    show ?thesis
      using u by (simp add: escape_char_def h hex_val_hex_char [OF d(1)] hex_val_hex_char [OF d(2)])
  next
    case p
    then show ?thesis by (auto simp: escape_char_def)
  qed (simp_all add: escape_char_def)
qed

lemma parse_chars_quoted:
  "parse_chars (concat (map escape_char s) @ CHR 0x22 # rest) = Some (s, rest)"
  by (induction s) (simp_all add: parse_chars_escape)

subsection \<open>Reading back what was written\<close>



lemma is_digit_cases: "is_digit c \<Longrightarrow> c \<noteq> CHR ''n'' \<and> c \<noteq> CHR ''t'' \<and> c \<noteq> CHR ''f'' \<and> c \<noteq> CHR 0x22 \<and>
   c \<noteq> CHR ''['' \<and> c \<noteq> CHR ''{'' \<and> c \<noteq> CHR ''-'' \<and> c \<noteq> CHR '']'' \<and> c \<noteq> CHR ''}'' \<and> \<not> is_ws c \<and> c \<noteq> CHR '',''
   \<and> c \<noteq> CHR ''.'' \<and> c \<noteq> CHR ''e'' \<and> c \<noteq> CHR ''E''"
  by (auto simp: is_digit_def is_ws_def)

lemma closes_not_digit: "closes (c # r) \<Longrightarrow> \<not> is_digit c \<and> c \<noteq> CHR ''.'' \<and> c \<noteq> CHR ''e'' \<and> c \<noteq> CHR ''E''"
  by (auto simp: closes_def is_digit_def)

lemma takeWhile_digits_append:
  "list_all is_digit ds \<Longrightarrow> closes rest \<Longrightarrow> takeWhile is_digit (ds @ rest) = ds"
  by (cases rest) (auto simp: takeWhile_append list_all_iff dest: closes_not_digit)

lemma dropWhile_digits_append:
  "list_all is_digit ds \<Longrightarrow> closes rest \<Longrightarrow> dropWhile is_digit (ds @ rest) = rest"
  by (cases rest) (auto simp: dropWhile_append list_all_iff dest: closes_not_digit)

lemma parse_number_digits:
  assumes "closes rest"
  shows "parse_number (string_of_nat n @ rest) = Some (JNum (Fin (int n)), rest)"
    and "parse_number (CHR ''-'' # string_of_nat n @ rest) = Some (JNum (Fin (- int n)), rest)"
proof -
  let ?ds = "string_of_nat n"
  have d: "list_all is_digit ?ds" by (rule digits_string_of_nat)
  have ne: "?ds \<noteq> []" by (rule string_of_nat_not_Nil)
  have z: "hd ?ds = CHR ''0'' \<longrightarrow> length ?ds = 1"
    using hd_string_of_nat [of n] string_of_nat_0 by auto
  have r: "\<not> (case rest of c # _ \<Rightarrow> c = CHR ''.'' \<or> c = CHR ''e'' \<or> c = CHR ''E'' | [] \<Rightarrow> False)"
    using assms by (cases rest) (auto dest: closes_not_digit)
  obtain c cs where c: "?ds = c # cs" using ne by (cases ?ds) auto
  have "c \<noteq> CHR ''-''" using hd_string_of_nat_not_minus [of n] c by simp
  then have m: "\<not> (case ?ds @ rest of c # _ \<Rightarrow> c = CHR ''-'' | [] \<Rightarrow> False)"
    by (simp add: c)
  note tk = takeWhile_digits_append [OF d assms] dropWhile_digits_append [OF d assms]
  show "parse_number (?ds @ rest) = Some (JNum (Fin (int n)), rest)"
    unfolding parse_number_def Let_def
    using ne z r m by (simp add: tk nat_of_digits_string_of_nat)
  show "parse_number (CHR ''-'' # ?ds @ rest) = Some (JNum (Fin (- int n)), rest)"
    unfolding parse_number_def Let_def
    using ne z r by (simp add: tk nat_of_digits_string_of_nat)
qed

lemma parse_number_string_of_int:
  "closes rest \<Longrightarrow> parse_number (string_of_int i @ rest) = Some (JNum (Fin i), rest)"
  by (simp add: string_of_int_def parse_number_digits)


lemma number_start:
  "is_digit c \<or> c = CHR ''-'' \<Longrightarrow>
   \<not> is_ws c \<and> c \<noteq> CHR ''n'' \<and> c \<noteq> CHR ''t'' \<and> c \<noteq> CHR ''f'' \<and> c \<noteq> CHR 0x22 \<and>
   c \<noteq> CHR ''['' \<and> c \<noteq> CHR ''{'' \<and> c \<noteq> CHR '']'' \<and> c \<noteq> CHR ''}''"
  by (auto simp: is_digit_def is_ws_def)

lemma is_json_Some: "is_json v \<Longrightarrow> \<exists>s. stringify_value v = Some s"
  by (cases v rule: is_json.cases) auto

lemma hd_string_of_int: "\<exists>c cs. string_of_int i = c # cs \<and> (is_digit c \<or> c = CHR ''-'')"
proof (cases "i < 0")
  case True
  then show ?thesis by (simp add: string_of_int_def)
next
  case False
  obtain c cs where c: "string_of_nat (nat i) = c # cs"
    using string_of_nat_not_Nil [of "nat i"] by (cases "string_of_nat (nat i)") auto
  with hd_string_of_nat_digit [of "nat i"] False show ?thesis
    by (simp add: string_of_int_def)
qed

lemma stringify_opener:
  "stringify_value v = Some s \<Longrightarrow> \<exists>c cs. s = c # cs \<and> opener c"
proof (cases v)
  case (JNum n)
  assume s: "stringify_value v = Some s"
  show ?thesis
  proof (cases n)
    case NaN
    with JNum s show ?thesis by (auto simp: opener_def is_ws_def)
  next
    case (Fin i)
    obtain c cs where c: "string_of_int i = c # cs" "is_digit c \<or> c = CHR ''-''"
      using hd_string_of_int by blast
    note o = number_start [OF c(2)]
    from JNum Fin s c(1) have "s = c # cs" by simp
    with o show ?thesis
      unfolding opener_def by blast
  qed
qed (auto simp: opener_def is_ws_def quote_def)

lemma skip_ws_opener: "opener c \<Longrightarrow> skip_ws (c # cs) = c # cs"
  by (simp add: skip_ws_def opener_def)

lemma skip_ws_closer [simp]:
  "skip_ws (CHR '']'' # r) = CHR '']'' # r"
  "skip_ws (CHR ''}'' # r) = CHR ''}'' # r"
  "skip_ws (CHR '','' # r) = CHR '','' # r"
  "skip_ws (CHR '':'' # r) = CHR '':'' # r"
  "skip_ws (CHR 0x22 # r) = CHR 0x22 # r"
  by (simp_all add: skip_ws_def is_ws_def)

lemma closes_simps [simp]:
  "closes (CHR '']'' # r)" "closes (CHR ''}'' # r)" "closes (CHR '','' # r)" "closes []"
  by (simp_all add: closes_def)

lemma parse_value_number:
  assumes "closes rest"
  shows "parse_value (Suc n) (string_of_int i @ rest) = Some (JNum (Fin i), rest)"
proof -
  obtain c cs where c: "string_of_int i = c # cs" "is_digit c \<or> c = CHR ''-''"
    using hd_string_of_int by blast
  note o = number_start [OF c(2)]
  have sk: "skip_ws (c # cs @ rest) = c # cs @ rest"
    using o by (simp add: skip_ws_def)
  have "parse_value (Suc n) (c # cs @ rest) = parse_number (c # cs @ rest)"
    by (subst parse_value.simps) (simp add: sk o del: parse_value.simps)
  then show ?thesis
    using parse_number_string_of_int [OF assms, of i] by (simp add: c del: parse_value.simps)
qed

lemma parse_value_scalars:
  "parse_value (Suc n) (''null'' @ rest) = Some (JNull, rest)"
  "parse_value (Suc n) (''true'' @ rest) = Some (JBool True, rest)"
  "parse_value (Suc n) (''false'' @ rest) = Some (JBool False, rest)"
  "parse_value (Suc n) (quote s @ rest) = Some (JStr s, rest)"
  by (simp_all add: skip_ws_def is_ws_def quote_def parse_chars_quoted)

lemma stringify_elements_json:
  "list_all is_json xs \<Longrightarrow> stringify_elements xs = map (\<lambda>x. the (stringify_value x)) xs"
  by (induction xs) (auto dest: is_json_Some)

lemma stringify_members_json:
  "list_all (\<lambda>kv. is_json (snd kv)) kvs \<Longrightarrow>
   stringify_members kvs = map (\<lambda>kv. quote (fst kv) @ '':'' @ the (stringify_value (snd kv))) kvs"
  by (induction kvs) (auto dest: is_json_Some)

lemma parse_elements_round_trip:
  assumes H: "\<And>x rest fuel. x \<in> set xs \<Longrightarrow> is_json x \<Longrightarrow> closes rest \<Longrightarrow>
                length (the (stringify_value x)) \<le> fuel \<Longrightarrow>
                parse_value fuel (the (stringify_value x) @ rest) = Some (x, rest)"
    and ne: "xs \<noteq> []"
    and js: "list_all is_json xs"
    and fu: "length (intersperse '','' (map (\<lambda>x. the (stringify_value x)) xs)) < fuel"
  shows "parse_elements fuel (intersperse '','' (map (\<lambda>x. the (stringify_value x)) xs) @ CHR '']'' # rest) =
         Some (xs, rest)"
  using ne H js fu
proof (induction xs arbitrary: fuel rule: list_nonempty_induct)
  case (single x)
  let ?s = "the (stringify_value x)"
  from single.prems(3) obtain n where n: "fuel = Suc n" "length ?s \<le> n"
    by (cases fuel) auto
  have "parse_value n (?s @ CHR '']'' # rest) = Some (x, CHR '']'' # rest)"
    using single.prems(1) [of x "CHR '']'' # rest" n] single.prems(2) n by simp
  then show ?case by (simp add: n del: parse_value.simps)
next
  case (cons x xs)
  let ?s = "the (stringify_value x)"
  let ?t = "intersperse '','' (map (\<lambda>x. the (stringify_value x)) xs)"
  obtain y ys where xs: "xs = y # ys" using cons.hyps by (cases xs) auto
  have i: "intersperse '','' (map (\<lambda>x. the (stringify_value x)) (x # xs)) = ?s @ '','' @ ?t"
    by (simp add: xs)
  from cons.prems(2) obtain s0 where "stringify_value x = Some s0" by (auto dest: is_json_Some)
  then have s1: "1 \<le> length ?s" using stringify_opener [of x s0] by auto
  from cons.prems(3) obtain n where n: "fuel = Suc n" "length ?s + 1 + length ?t \<le> n"
    unfolding i by (cases fuel) auto
  have a: "parse_value n (?s @ CHR '','' # ?t @ CHR '']'' # rest) = Some (x, CHR '','' # ?t @ CHR '']'' # rest)"
    using cons.prems(1) [of x "CHR '','' # ?t @ CHR '']'' # rest" n] cons.prems(2) n by simp
  have H': "\<And>x' rest fuel. x' \<in> set xs \<Longrightarrow> is_json x' \<Longrightarrow> closes rest \<Longrightarrow>
                length (the (stringify_value x')) \<le> fuel \<Longrightarrow>
                parse_value fuel (the (stringify_value x') @ rest) = Some (x', rest)"
    using cons.prems(1) by simp
  have b: "parse_elements n (?t @ CHR '']'' # rest) = Some (xs, rest)"
    using cons.prems(2) n s1 by (intro cons.IH [OF H']) simp_all
  show ?case
    unfolding i using a b by (simp add: n del: parse_value.simps)
qed


lemma parse_members_round_trip:
  assumes H: "\<And>kv rest fuel. kv \<in> set kvs \<Longrightarrow> is_json (snd kv) \<Longrightarrow> closes rest \<Longrightarrow>
                length (the (stringify_value (snd kv))) \<le> fuel \<Longrightarrow>
                parse_value fuel (the (stringify_value (snd kv)) @ rest) = Some (snd kv, rest)"
    and ne: "kvs \<noteq> []"
    and js: "list_all (\<lambda>kv. is_json (snd kv)) kvs"
    and fu: "length (intersperse '','' (map (\<lambda>kv. quote (fst kv) @ '':'' @ the (stringify_value (snd kv))) kvs))
               < fuel"
  shows "parse_members fuel
           (intersperse '','' (map (\<lambda>kv. quote (fst kv) @ '':'' @ the (stringify_value (snd kv))) kvs) @
            CHR ''}'' # rest) =
         Some (kvs, rest)"
  using ne H js fu
proof (induction kvs arbitrary: fuel rule: list_nonempty_induct)
  case (single kv)
  let ?s = "the (stringify_value (snd kv))"
  let ?k = "concat (map escape_char (fst kv))"
  from single.prems(3) obtain n where n: "fuel = Suc n" "length ?s \<le> n"
    by (cases fuel) (auto simp: quote_def)
  have v: "parse_value n (?s @ CHR ''}'' # rest) = Some (snd kv, CHR ''}'' # rest)"
    using single.prems(1) [of kv "CHR ''}'' # rest" n] single.prems(2) n by simp
  have k: "parse_chars (?k @ CHR 0x22 # CHR '':'' # ?s @ CHR ''}'' # rest) =
           Some (fst kv, CHR '':'' # ?s @ CHR ''}'' # rest)"
    by (rule parse_chars_quoted)
  show ?case
    using k v by (simp add: n quote_def del: parse_value.simps)
next
  case (cons kv kvs)
  let ?s = "the (stringify_value (snd kv))"
  let ?k = "concat (map escape_char (fst kv))"
  let ?t = "intersperse '','' (map (\<lambda>kv. quote (fst kv) @ '':'' @ the (stringify_value (snd kv))) kvs)"
  obtain y ys where kvs: "kvs = y # ys" using cons.hyps by (cases kvs) auto
  have i: "intersperse '','' (map (\<lambda>kv. quote (fst kv) @ '':'' @ the (stringify_value (snd kv))) (kv # kvs)) =
           CHR 0x22 # ?k @ CHR 0x22 # CHR '':'' # ?s @ CHR '','' # ?t"
    unfolding kvs by (simp add: quote_def)
  from cons.prems(3) obtain n where n: "fuel = Suc n" "length ?s + 1 + length ?t < n"
    unfolding i by (cases fuel) auto
  have v: "parse_value n (?s @ CHR '','' # ?t @ CHR ''}'' # rest) =
           Some (snd kv, CHR '','' # ?t @ CHR ''}'' # rest)"
    using cons.prems(1) [of kv "CHR '','' # ?t @ CHR ''}'' # rest" n] cons.prems(2) n by simp
  have k: "parse_chars (?k @ CHR 0x22 # CHR '':'' # ?s @ CHR '','' # ?t @ CHR ''}'' # rest) =
           Some (fst kv, CHR '':'' # ?s @ CHR '','' # ?t @ CHR ''}'' # rest)"
    by (rule parse_chars_quoted)
  have H': "\<And>kv' rest fuel. kv' \<in> set kvs \<Longrightarrow> is_json (snd kv') \<Longrightarrow> closes rest \<Longrightarrow>
                length (the (stringify_value (snd kv'))) \<le> fuel \<Longrightarrow>
                parse_value fuel (the (stringify_value (snd kv')) @ rest) = Some (snd kv', rest)"
    using cons.prems(1) by simp
  have b: "parse_members n (?t @ CHR ''}'' # rest) = Some (kvs, rest)"
    using cons.prems(2) n by (intro cons.IH [OF H']) simp_all
  show ?case
    unfolding i using k v b by (simp add: n del: parse_value.simps)
qed


lemma intersperse_opener:
  assumes "ss \<noteq> []" "\<exists>c cs. hd ss = c # cs \<and> P c"
  shows "\<exists>c cs. intersperse sep ss = c # cs \<and> P c"
proof (cases ss)
  case Nil
  with assms show ?thesis by simp
next
  case (Cons s ss')
  with assms(2) obtain c cs where "s = c # cs" "P c" by auto
  with Cons show ?thesis by (cases ss') auto
qed

lemma parse_value_round_trip:
  "is_json v \<Longrightarrow> closes rest \<Longrightarrow> length (the (stringify_value v)) \<le> fuel \<Longrightarrow>
   parse_value fuel (the (stringify_value v) @ rest) = Some (v, rest)"
proof (induction v arbitrary: rest fuel)
  case JUndefined
  then show ?case by simp
next
  case JNull
  then obtain n where "fuel = Suc n" by (cases fuel) auto
  then show ?case using parse_value_scalars(1) [of n rest] by (simp del: parse_value.simps)
next
  case (JBool b)
  then obtain n where "fuel = Suc n" by (cases fuel; cases b) auto
  then show ?case using parse_value_scalars(2,3) [of n rest] by (simp del: parse_value.simps)
next
  case (JNum x)
  then obtain i where i: "x = Fin i" by (cases x) auto
  have "string_of_int i \<noteq> []" by (rule string_of_int_not_Nil)
  with JNum i obtain n where "fuel = Suc n" by (cases fuel) auto
  with JNum(2) i show ?case by (simp add: parse_value_number del: parse_value.simps)
next
  case (JStr s)
  then obtain n where "fuel = Suc n" by (cases fuel) (auto simp: quote_def)
  then show ?case using parse_value_scalars(4) [of n s rest] by (simp del: parse_value.simps)
next
  case (JArr xs)
  let ?t = "intersperse '','' (map (\<lambda>x. the (stringify_value x)) xs)"
  from JArr.prems(1) have js: "list_all is_json xs" by simp
  have st: "the (stringify_value (JArr xs)) = CHR ''['' # ?t @ '']''"
    by (simp add: stringify_elements_json [OF js])
  from JArr.prems(3) obtain n where n: "fuel = Suc n" "length ?t < n"
    unfolding st by (cases fuel) auto
  show ?case
  proof (cases "xs = []")
    case True
    then show ?thesis
      unfolding st n by (subst parse_value.simps) (simp add: skip_ws_def is_ws_def del: parse_value.simps)
  next
    case False
    from False js obtain s0 where "stringify_value (hd xs) = Some s0"
      by (cases xs) (auto dest: is_json_Some)
    then have "\<exists>c cs. hd (map (\<lambda>x. the (stringify_value x)) xs) = c # cs \<and> opener c"
      using False stringify_opener [of "hd xs" s0] by (cases xs) auto
    with False obtain c cs where c: "?t = c # cs" "opener c"
      using intersperse_opener [of "map (\<lambda>x. the (stringify_value x)) xs" opener "'',''"] by auto
    have H: "\<And>x rest fuel. x \<in> set xs \<Longrightarrow> is_json x \<Longrightarrow> closes rest \<Longrightarrow>
                length (the (stringify_value x)) \<le> fuel \<Longrightarrow>
                parse_value fuel (the (stringify_value x) @ rest) = Some (x, rest)"
      using JArr.IH by blast
    have e: "parse_elements n (?t @ CHR '']'' # rest) = Some (xs, rest)"
      using parse_elements_round_trip [OF H False js n(2)] by simp
    have sk: "skip_ws (c # cs @ CHR '']'' # rest) = c # cs @ CHR '']'' # rest"
      using c(2) by (rule skip_ws_opener)
    have "c \<noteq> CHR '']''" using c(2) by (simp add: opener_def)
    then show ?thesis
      unfolding st n using e sk
      by (subst parse_value.simps) (simp add: skip_ws_def is_ws_def c(1) del: parse_value.simps)
  qed
next
  case (JObj kvs)
  let ?t = "intersperse '','' (map (\<lambda>kv. quote (fst kv) @ '':'' @ the (stringify_value (snd kv))) kvs)"
  from JObj.prems(1) have js: "list_all (\<lambda>kv. is_json (snd kv)) kvs" by simp
  have st: "the (stringify_value (JObj kvs)) = CHR ''{'' # ?t @ ''}''"
    by (simp add: stringify_members_json [OF js])
  from JObj.prems(3) obtain n where n: "fuel = Suc n" "length ?t < n"
    unfolding st by (cases fuel) auto
  show ?case
  proof (cases "kvs = []")
    case True
    then show ?thesis
      unfolding st n by (subst parse_value.simps) (simp add: skip_ws_def is_ws_def del: parse_value.simps)
  next
    case False
    have "\<exists>c cs. hd (map (\<lambda>kv. quote (fst kv) @ '':'' @ the (stringify_value (snd kv))) kvs) = c # cs \<and>
            c = CHR 0x22"
      using False by (cases kvs) (auto simp: quote_def)
    with False obtain c cs where c: "?t = c # cs" "c = CHR 0x22"
      using intersperse_opener
        [of "map (\<lambda>kv. quote (fst kv) @ '':'' @ the (stringify_value (snd kv))) kvs"
            "\<lambda>c. c = CHR 0x22" "'',''"]
      by auto
    have H: "\<And>kv rest fuel. kv \<in> set kvs \<Longrightarrow> is_json (snd kv) \<Longrightarrow> closes rest \<Longrightarrow>
                length (the (stringify_value (snd kv))) \<le> fuel \<Longrightarrow>
                parse_value fuel (the (stringify_value (snd kv)) @ rest) = Some (snd kv, rest)"
    proof -
      fix kv :: "string \<times> jsval" and rest fuel
      assume a: "kv \<in> set kvs" "is_json (snd kv)" "closes rest"
        "length (the (stringify_value (snd kv))) \<le> fuel"
      have "snd kv \<in> Basic_BNFs.snds kv" by (cases kv) simp
      from JObj.IH [OF a(1) this a(2,3,4)]
      show "parse_value fuel (the (stringify_value (snd kv)) @ rest) = Some (snd kv, rest)" .
    qed
    have e: "parse_members n (?t @ CHR ''}'' # rest) = Some (kvs, rest)"
      using parse_members_round_trip [OF H False js n(2)] by simp
    have sk: "skip_ws (c # cs @ CHR ''}'' # rest) = c # cs @ CHR ''}'' # rest"
      using c(2) by simp
    show ?thesis
      unfolding st n using c e sk
      by (subst parse_value.simps) (simp add: skip_ws_def is_ws_def del: parse_value.simps)
  qed
qed

lemma is_json_round_trips: "is_json v \<Longrightarrow> round_trips v"
proof -
  assume j: "is_json v"
  then obtain s where s: "stringify_value v = Some s" by (auto dest: is_json_Some)
  have "parse_value (Suc (length s)) (s @ []) = Some (v, [])"
    using parse_value_round_trip [OF j, of "[]" "Suc (length s)"] s by simp
  then show ?thesis
    by (simp add: round_trips_def JSON_stringify_def JSON_parse_def s skip_ws_def
        del: parse_value.simps)
qed


section \<open>Properties of SettingStorage\<close>

subsection \<open>Auxiliary facts\<close>

lemma round_trips_falsy:
  "round_trips (JBool False) \<and> round_trips (JNum (Fin 0)) \<and> round_trips JNull \<and>
   round_trips (JStr [])"
  by code_simp

lemma parse_stored: "round_trips v \<Longrightarrow> JSON_parse (stored v) = Inr v"
  by (auto simp: stored_def round_trips_def split: option.splits)

lemma parse_literals:
  "JSON_parse ''true'' = Inr (JBool True)"
  "JSON_parse ''false'' = Inr (JBool False)"
  "JSON_parse ''0'' = Inr (JNum (Fin 0))"
  "JSON_parse ''null'' = Inr JNull"
  by code_simp+

lemma storage_read_None: "storage_read st k = None \<longleftrightarrow> \<not> is_member k \<and> st k = None"
  by (auto simp: storage_read_def is_member_def)

lemma storage_read_item: "\<not> is_member k \<Longrightarrow> storage_read st k = map_option Item (st k)"
  by (auto simp: storage_read_def is_member_def)

lemma get_item:
  "\<not> is_member (prefix this @ name) \<Longrightarrow>
   get this st name =
     (case st (prefix this @ name) of None \<Rightarrow> Inr JNull | Some data \<Rightarrow> JSON_parse data)"
  by (simp add: get_def storage_read_item split: option.splits)

lemma get_set_same:
  "\<not> is_member (prefix this @ name) \<Longrightarrow> round_trips v \<Longrightarrow>
   get this (set_setting this st name v) name = Inr v"
  by (simp add: get_item set_setting_def parse_stored)

lemma fillDefaults_loop_present:
  "st k = Some x \<Longrightarrow> fillDefaults_loop this st ds k = Some x"
proof (induction ds arbitrary: st)
  case Nil
  then show ?case by simp
next
  case (Cons a ds)
  show ?case
  proof (cases "storage_read st (prefix this @ fst a) = None")
    case True
    with Cons.prems have "k \<noteq> prefix this @ fst a" by (auto simp: storage_read_None)
    with Cons.prems have "(set_setting this st (fst a) (snd a)) k = Some x"
      by (simp add: set_setting_def)
    with Cons.IH True show ?thesis by simp
  next
    case False
    with Cons show ?thesis by auto
  qed
qed

lemma fillDefaults_loop_undeclared:
  "k \<notin> (\<lambda>d. prefix this @ fst d) ` set ds \<Longrightarrow> fillDefaults_loop this st ds k = st k"
  by (induction ds arbitrary: st) (auto simp: set_setting_def)

lemma fillDefaults_loop_member:
  "is_member k \<Longrightarrow> fillDefaults_loop this st ds k = st k"
proof (induction ds arbitrary: st)
  case Nil
  then show ?case by simp
next
  case (Cons a ds)
  show ?case
  proof (cases "storage_read st (prefix this @ fst a) = None")
    case True
    with Cons.prems have "k \<noteq> prefix this @ fst a" by (auto simp: storage_read_None)
    then have "(set_setting this st (fst a) (snd a)) k = st k"
      by (simp add: set_setting_def)
    with Cons.IH [OF Cons.prems] True show ?thesis by simp
  next
    case False
    with Cons show ?thesis by auto
  qed
qed

lemma fillDefaults_loop_absent:
  "map_of ds n = Some d \<Longrightarrow> st (prefix this @ n) = None \<Longrightarrow> \<not> is_member (prefix this @ n) \<Longrightarrow>
   fillDefaults_loop this st ds (prefix this @ n) = Some (stored d)"
proof (induction ds arbitrary: st)
  case Nil
  then show ?case by simp
next
  case (Cons a ds)
  show ?case
  proof (cases "fst a = n")
    case True
    with Cons.prems show ?thesis
      by (cases a) (simp add: fillDefaults_loop_present set_setting_def storage_read_None)
  next
    case False
    with Cons.prems have m: "map_of ds n = Some d" by (cases a) (simp split: if_splits)
    from False Cons.prems(2) have "(set_setting this st (fst a) (snd a)) (prefix this @ n) = None"
      by (simp add: set_setting_def)
    with Cons.IH m Cons.prems(2,3) show ?thesis by simp
  qed
qed

lemma reset_loop_eq:
  "reset_loop this st ds name =
     set_setting this st name (case map_of ds name of None \<Rightarrow> JNull | Some d \<Rightarrow> d)"
  by (induction ds) auto

lemma resetAll_loop_key:
  "resetAll_loop this st ds (prefix this @ n) =
     (case map_of (rev ds) n of None \<Rightarrow> st (prefix this @ n) | Some d \<Rightarrow> Some (stored d))"
proof (induction ds arbitrary: st)
  case Nil
  then show ?case by simp
next
  case (Cons a ds)
  then show ?case
    by (cases a) (auto simp: set_setting_def map_add_def split: option.splits)
qed

lemma getAll_loop_ok:
  "(\<forall>d \<in> set ds. get this st (fst d) = Inr (f (fst d))) \<Longrightarrow>
   getAll_loop this st ds data = Inr (\<lambda>n. if n \<in> fst ` set ds then Some (f n) else data n)"
proof (induction ds arbitrary: data)
  case Nil
  then show ?case by simp
next
  case (Cons a ds)
  have "(\<lambda>n. if n \<in> fst ` set ds then Some (f n) else (data(fst a \<mapsto> f (fst a))) n) =
        (\<lambda>n. if n \<in> fst ` set (a # ds) then Some (f n) else data n)"
    by (rule ext) auto
  with Cons show ?case by simp
qed

lemma getAll_resetAll:
  assumes ser: "\<forall>d \<in> set (defaults this). round_trips (snd d)"
    and items: "\<forall>d \<in> set (defaults this). \<not> is_member (prefix this @ fst d)"
  shows "getAll this (resetAll this st) = Inr (map_of (rev (defaults this)))"
proof -
  let ?ds = "defaults this"
  let ?s1 = "resetAll_loop this st ?ds"
  let ?f = "\<lambda>n. the (map_of (rev ?ds) n)"
  have g: "get this ?s1 (fst d) = Inr (?f (fst d))" if d: "d \<in> set ?ds" for d
  proof -
    from d have "fst d \<in> fst ` set (rev ?ds)" by simp
    then obtain v where v: "map_of (rev ?ds) (fst d) = Some v"
      by (metis domD dom_map_of_conv_image_fst)
    then have "(fst d, v) \<in> set ?ds" using map_of_SomeD by fastforce
    with ser have "round_trips v" by fastforce
    moreover from items d have "\<not> is_member (prefix this @ fst d)" by simp
    ultimately show ?thesis by (simp add: get_item resetAll_loop_key v parse_stored)
  qed
  have "getAll_loop this ?s1 ?ds Map.empty =
          Inr (\<lambda>n. if n \<in> fst ` set ?ds then Some (?f n) else None)"
    using g by (intro getAll_loop_ok) simp
  moreover have "(\<lambda>n. if n \<in> fst ` set ?ds then Some (?f n) else None) = map_of (rev ?ds)"
  proof (rule ext)
    fix n
    show "(if n \<in> fst ` set ?ds then Some (?f n) else None) = map_of (rev ?ds) n"
    proof (cases "n \<in> fst ` set ?ds")
      case True
      then have "n \<in> dom (map_of (rev ?ds))" by (simp add: dom_map_of_conv_image_fst)
      then show ?thesis using True by auto
    next
      case False
      then have "map_of (rev ?ds) n = None" by (simp add: map_of_eq_None_iff)
      with False show ?thesis by simp
    qed
  qed
  ultimately show ?thesis by (simp add: getAll_def resetAll_def)
qed

lemma getInit_eq:
  "getInit this st =
     (case storage_read st (init_key this) of
        None \<Rightarrow> Inr (JNull, this)
      | Some data \<Rightarrow>
          (case JSON_parse (property_text data) of Inl e \<Rightarrow> Inl e | Inr v \<Rightarrow> Inr (v, this)))"
  by (cases this) (simp add: getInit_def get_def init_key_def Let_def split: option.splits sum.splits)

lemma setInit_eq: "setInit this st v = (this, st(init_key this \<mapsto> stored v))"
  by (cases this) (simp add: setInit_def set_setting_def init_key_def Let_def)

lemma firstRun_configure: "firstRun (configure defs opts) = False"
  by (simp add: configure_def Let_def split: option.splits)

lemma accessors_configure: "accessors (configure defs opts) = []"
  by (simp add: configure_def Let_def split: option.splits)

lemma defaults_configure:
  "defaults (configure defs opts) = (case defs of None \<Rightarrow> [] | Some d \<Rightarrow> d)"
  by (simp add: configure_def Let_def split: option.splits)

lemma made_fields [simp]:
  "defaults (made c b) = defaults c"
  "prefix (made c b) = prefix c"
  "initSetting (made c b) = initSetting c"
  "globalInit (made c b) = globalInit c"
  "useAccessors (made c b) = useAccessors c"
  "firstRun (made c b) = b"
  "accessors (made c b) =
     (if useAccessors c then filter (\<lambda>name. name \<notin> set reserved) (map fst (defaults c))
      else accessors c)"
  by (simp_all add: made_def defineAccessors_def Let_def)

lemma init_key_made [simp]: "init_key (made c b) = init_key c"
  by (simp add: init_key_def)

lemma kept_made [simp]: "kept (made c b) p = kept (made c b') p"
  by (simp add: kept_def)

lemma new_eq:
  "SettingStorage_new defs opts st =
     (case storage_read st (init_key (configure defs opts)) of
        None \<Rightarrow> Inr (made (configure defs opts) True)
      | Some data \<Rightarrow>
          (case JSON_parse (property_text data) of
             Inl e \<Rightarrow> Inl e
           | Inr v \<Rightarrow> Inr (made (configure defs opts) (\<not> truthy v))))"
proof -
  have "(configure defs opts)\<lparr>firstRun := False\<rparr> = configure defs opts"
    using firstRun_configure [of defs opts] by (cases "configure defs opts") simp
  then show ?thesis
    by (auto simp: SettingStorage_new_def getInit_eq made_def Let_def split: option.splits sum.splits)
qed

lemma new_item:
  "\<not> is_member (init_key (configure defs opts)) \<Longrightarrow>
   SettingStorage_new defs opts st =
     (case st (init_key (configure defs opts)) of
        None \<Rightarrow> Inr (made (configure defs opts) True)
      | Some data \<Rightarrow>
          (case JSON_parse data of
             Inl e \<Rightarrow> Inl e
           | Inr v \<Rightarrow> Inr (made (configure defs opts) (\<not> truthy v))))"
  by (simp add: new_eq storage_read_item split: option.splits)

lemma init_eq:
  "kept this ''firstRun'' \<Longrightarrow>
   init this st =
     Inr (this, if firstRun this then (fillDefaults this st)(init_key this \<mapsto> ''true'')
                else fillDefaults this st)"
proof -
  have "stored (JBool True) = ''true''" by (simp add: stored_def JSON_stringify_def)
  then show "kept this ''firstRun'' \<Longrightarrow> ?thesis"
    by (simp add: init_def this_firstRun_def setInit_eq Let_def)
qed

lemma call_this: "fst (call m (this, st)) = this"
  by (cases m) (simp_all add: init_def Let_def setInit_eq split: sum.splits)

lemma calls_this: "fst (calls ms (this, st)) = this"
proof (induction ms arbitrary: st)
  case Nil
  then show ?case by simp
next
  case (Cons m ms)
  obtain st' where "call m (this, st) = (this, st')"
    using call_this [of m this st] by (cases "call m (this, st)") simp
  with Cons show ?case by simp
qed


subsection \<open>First run\<close>

text \<open>
  Claim C1, as the code has it. Let the key of the init flag be no member of the storage
  object. A store constructed over an empty backend has \<open>firstRun\<close> true. When it is
  plain, \<open>init()\<close> returns, \<open>firstRun\<close> still reads true, and \<open>get(name)\<close> returns the
  declared default of every declared pair whose key is neither the key of the init flag
  nor a member of the storage object, where the names are unique and the default is a
  JSON value. A second store constructed with the same arguments over the backend as
  \<open>init()\<close> left it has \<open>firstRun\<close> false.
\<close>

theorem init_on_empty_backend:
  assumes "\<not> is_member (init_key (configure defs opts))"
  shows "\<exists>this.
     SettingStorage_new defs opts Map.empty = Inr this \<and>
     this = made (configure defs opts) True \<and>
     firstRun this \<and>
     (plain this \<longrightarrow>
        (\<exists>st'. init this Map.empty = Inr (this, st') \<and>
           this_firstRun this st' = Inr (JBool True) \<and>
           (\<forall>n d. (n, d) \<in> set (defaults this) \<and> distinct (map fst (defaults this)) \<and>
                  is_json d \<and> prefix this @ n \<noteq> init_key this \<and>
                  \<not> is_member (prefix this @ n) \<longrightarrow>
                  get this st' n = Inr d) \<and>
           (\<exists>this2. SettingStorage_new defs opts st' = Inr this2 \<and> \<not> firstRun this2 \<and>
                     this_firstRun this2 st' = Inr (JBool False))))"
proof -
  let ?c = "configure defs opts"
  let ?me = "made ?c True"
  let ?s1 = "(fillDefaults ?me Map.empty)(init_key ?me \<mapsto> ''true'')"
  have new: "SettingStorage_new defs opts Map.empty = Inr ?me"
    using assms by (simp add: new_item)
  have rest: "\<exists>st'. init ?me Map.empty = Inr (?me, st') \<and>
           this_firstRun ?me st' = Inr (JBool True) \<and>
           (\<forall>n d. (n, d) \<in> set (defaults ?me) \<and> distinct (map fst (defaults ?me)) \<and>
                  is_json d \<and> prefix ?me @ n \<noteq> init_key ?me \<and>
                  \<not> is_member (prefix ?me @ n) \<longrightarrow>
                  get ?me st' n = Inr d) \<and>
           (\<exists>this2. SettingStorage_new defs opts st' = Inr this2 \<and> \<not> firstRun this2 \<and>
                     this_firstRun this2 st' = Inr (JBool False))"
    if p: "plain ?me"
  proof -
    from p have k: "kept ?me ''firstRun''" by (simp add: plain_def)
    then have k2: "kept (made ?c False) ''firstRun''" by (simp add: kept_def)
    have ini: "init ?me Map.empty = Inr (?me, ?s1)"
      using k by (simp add: init_eq)
    have fr: "this_firstRun ?me ?s1 = Inr (JBool True)"
      using k by (simp add: this_firstRun_def)
    have gets: "get ?me ?s1 n = Inr d"
      if "(n, d) \<in> set (defaults ?me)" "distinct (map fst (defaults ?me))"
         "is_json d" "prefix ?me @ n \<noteq> init_key ?me" "\<not> is_member (prefix ?me @ n)" for n d
    proof -
      from that(1,2) have "map_of (defaults ?me) n = Some d" by simp
      then have "fillDefaults ?me Map.empty (prefix ?me @ n) = Some (stored d)"
        unfolding fillDefaults_def using that(5) by (intro fillDefaults_loop_absent) simp_all
      with that(4,5) is_json_round_trips [OF that(3)] show ?thesis
        by (simp add: get_item parse_stored)
    qed
    have second: "SettingStorage_new defs opts ?s1 = Inr (made ?c False)"
      using assms by (simp add: new_item parse_literals)
    have fr2: "this_firstRun (made ?c False) ?s1 = Inr (JBool False)"
      using k2 by (simp add: this_firstRun_def)
    show ?thesis
      apply (rule exI [of _ ?s1])
      using ini fr gets second fr2 by simp
  qed
  show ?thesis
    apply (rule exI [of _ ?me])
    using new rest by simp
qed

theorem init_on_empty_backend_witness:
  "\<not> is_member (init_key (configure (Some [(''checkbox'', JBool True), (''textbox'', JStr ''foo''),
         (''range'', JNum (Fin 0))]) None)) \<and>
   (\<exists>this st'.
     SettingStorage_new (Some [(''checkbox'', JBool True), (''textbox'', JStr ''foo''),
         (''range'', JNum (Fin 0))]) None Map.empty = Inr this \<and>
     accessors this = [''checkbox'', ''textbox'', ''range''] \<and>
     plain this \<and>
     firstRun this \<and>
     init this Map.empty = Inr (this, st') \<and>
     this_firstRun this st' = Inr (JBool True) \<and>
     get this st' ''checkbox'' = Inr (JBool True) \<and>
     get this st' ''textbox'' = Inr (JStr ''foo'') \<and>
     get this st' ''range'' = Inr (JNum (Fin 0)) \<and>
     (\<exists>this2. SettingStorage_new (Some [(''checkbox'', JBool True), (''textbox'', JStr ''foo''),
         (''range'', JNum (Fin 0))]) None st' = Inr this2 \<and> \<not> firstRun this2))"
proof -
  let ?defs = "Some [(''checkbox'', JBool True), (''textbox'', JStr ''foo''), (''range'', JNum (Fin 0))]"
  have key: "\<not> is_member (init_key (configure ?defs None))"
    by (simp add: configure_def init_key_def is_member_def storage_methods_def)
  from init_on_empty_backend [OF key] obtain this where
    new: "SettingStorage_new ?defs None Map.empty = Inr this" and
    me: "this = made (configure ?defs None) True" and
    fr: "firstRun this" and
    rest: "plain this \<longrightarrow>
        (\<exists>st'. init this Map.empty = Inr (this, st') \<and>
           this_firstRun this st' = Inr (JBool True) \<and>
           (\<forall>n d. (n, d) \<in> set (defaults this) \<and> distinct (map fst (defaults this)) \<and>
                  is_json d \<and> prefix this @ n \<noteq> init_key this \<and>
                  \<not> is_member (prefix this @ n) \<longrightarrow>
                  get this st' n = Inr d) \<and>
           (\<exists>this2. SettingStorage_new ?defs None st' = Inr this2 \<and> \<not> firstRun this2 \<and>
                     this_firstRun this2 st' = Inr (JBool False)))"
    by blast
  have acc: "accessors this = [''checkbox'', ''textbox'', ''range'']"
    by (simp add: me configure_def reserved_def)
  have p: "plain this"
    by (simp add: plain_def kept_def acc)
  from rest p obtain st' where
    ini: "init this Map.empty = Inr (this, st')" and
    tf: "this_firstRun this st' = Inr (JBool True)" and
    gets: "\<And>n d. (n, d) \<in> set (defaults this) \<Longrightarrow> distinct (map fst (defaults this)) \<Longrightarrow>
            is_json d \<Longrightarrow> prefix this @ n \<noteq> init_key this \<Longrightarrow>
            \<not> is_member (prefix this @ n) \<Longrightarrow> get this st' n = Inr d" and
    second: "\<exists>this2. SettingStorage_new ?defs None st' = Inr this2 \<and> \<not> firstRun this2 \<and>
                     this_firstRun this2 st' = Inr (JBool False)"
    by blast
  have g1: "get this st' ''checkbox'' = Inr (JBool True)"
    by (rule gets) (simp_all add: me configure_def init_key_def is_member_def storage_methods_def)
  have g2: "get this st' ''textbox'' = Inr (JStr ''foo'')"
    by (rule gets) (simp_all add: me configure_def init_key_def is_member_def storage_methods_def)
  have g3: "get this st' ''range'' = Inr (JNum (Fin 0))"
    by (rule gets) (simp_all add: me configure_def init_key_def is_member_def storage_methods_def)
  from key new acc p fr ini tf g1 g2 g3 second show ?thesis by blast
qed

text \<open>
  A setting declared under the name of the init flag, with the default \<open>false\<close>: the
  instance is plain and the key is no member of the storage object, yet after \<open>init()\<close>
  on the empty backend \<open>get\<close> of that name returns \<open>true\<close>, the flag that \<open>init()\<close>
  wrote over the default.
\<close>

theorem init_flag_name_counterexample:
  "SettingStorage_new (Some [(''__initialized'', JBool False)]) None Map.empty =
     Inr \<lparr>defaults = [(''__initialized'', JBool False)], prefix = [],
          initSetting = ''__initialized'', globalInit = False, useAccessors = True,
          firstRun = True, accessors = [''__initialized'']\<rparr> \<and>
   (case init \<lparr>defaults = [(''__initialized'', JBool False)], prefix = [],
               initSetting = ''__initialized'', globalInit = False, useAccessors = True,
               firstRun = True, accessors = [''__initialized'']\<rparr> Map.empty of
      Inl e \<Rightarrow> Inl e
    | Inr (this, st') \<Rightarrow> get this st' ''__initialized'') = Inr (JBool True)"
  by code_simp

subsection \<open>Round trip\<close>




subsection \<open>Filling in defaults\<close>




subsection \<open>Reset\<close>

text \<open>
  Claim C5, as the code has it. On an instance that has kept its properties \<open>defaults\<close>,
  \<open>prefix\<close> and \<open>storage\<close>, \<open>reset(name)\<close> sets the setting to its declared default
  when \<open>name\<close> is declared (the first declaration of the name), and to \<open>null\<close> when it
  is not. Either way the setting is written through \<open>set\<close>, and it reads back through
  \<open>get\<close> when its key is no member of the storage object.
\<close>

theorem reset_default_or_null:
  assumes "kept this ''defaults''" and "kept this ''prefix''" and "kept this ''storage''"
  shows "reset this st name =
     set_setting this st name (case map_of (defaults this) name of None \<Rightarrow> JNull | Some d \<Rightarrow> d) \<and>
   (name \<notin> fst ` set (defaults this) \<longrightarrow>
      reset this st name = set_setting this st name JNull \<and>
      (\<not> is_member (prefix this @ name) \<longrightarrow> get this (reset this st name) name = Inr JNull)) \<and>
   (\<forall>d. map_of (defaults this) name = Some d \<longrightarrow>
      reset this st name = set_setting this st name d \<and>
      (is_json d \<and> \<not> is_member (prefix this @ name) \<longrightarrow>
         get this (reset this st name) name = Inr d))"
proof -
  have n: "round_trips JNull" using round_trips_falsy by simp
  have "name \<notin> fst ` set (defaults this) \<Longrightarrow> map_of (defaults this) name = None"
    by (simp add: map_of_eq_None_iff)
  then show ?thesis
    unfolding reset_def reset_loop_eq using n by (auto simp: get_set_same is_json_round_trips)
qed

theorem reset_default_or_null_witness:
  "kept (made (configure (Some [(''textbox'', JStr ''foo'')]) None) False) ''defaults'' \<and>
   kept (made (configure (Some [(''textbox'', JStr ''foo'')]) None) False) ''prefix'' \<and>
   kept (made (configure (Some [(''textbox'', JStr ''foo'')]) None) False) ''storage'' \<and>
   get (made (configure (Some [(''textbox'', JStr ''foo'')]) None) False)
     (reset (made (configure (Some [(''textbox'', JStr ''foo'')]) None) False)
        [''textbox'' \<mapsto> ''1''] ''textbox'')
     ''textbox'' = Inr (JStr ''foo'') \<and>
   get (made (configure (Some [(''textbox'', JStr ''foo'')]) None) False)
     (reset (made (configure (Some [(''textbox'', JStr ''foo'')]) None) False)
        [''other'' \<mapsto> ''1''] ''other'')
     ''other'' = Inr JNull"
proof -
  let ?me = "made (configure (Some [(''textbox'', JStr ''foo'')]) None) False"
  have c: "defaults ?me = [(''textbox'', JStr ''foo'')]" "prefix ?me = []"
    "accessors ?me = [''textbox'']"
    by (simp_all add: configure_def reserved_def)
  have k: "kept ?me ''defaults''" "kept ?me ''prefix''" "kept ?me ''storage''"
    by (simp_all add: kept_def configure_def reserved_def)
  have nm: "\<not> is_member (prefix ?me @ ''textbox'')" "\<not> is_member (prefix ?me @ ''other'')"
    by (simp_all add: configure_def is_member_def storage_methods_def)
  have s: "is_json (JStr ''foo'')" by simp
  have m: "map_of (defaults ?me) ''textbox'' = Some (JStr ''foo'')" by (simp add: configure_def)
  have a: "get ?me (reset ?me [''textbox'' \<mapsto> ''1''] ''textbox'') ''textbox'' = Inr (JStr ''foo'')"
    using reset_default_or_null [OF k, of "[''textbox'' \<mapsto> ''1'']" "''textbox''"] m s nm by blast
  have "''other'' \<notin> fst ` set (defaults ?me)" by (simp add: configure_def)
  then have b: "get ?me (reset ?me [''other'' \<mapsto> ''1''] ''other'') ''other'' = Inr JNull"
    using reset_default_or_null [OF k, of "[''other'' \<mapsto> ''1'']" "''other''"] nm by blast
  from k a b show ?thesis by simp
qed

text \<open>
  The setting named \<open>clear\<close>, a method of the storage object, declared with the default
  \<open>true\<close>: after \<open>reset('clear')\<close> the setting does not read as its default, \<open>get\<close>
  throws.
\<close>

theorem reset_member_counterexample:
  "map_of (defaults (made (configure (Some [(''clear'', JBool True)]) None) False)) ''clear'' =
     Some (JBool True) \<and>
   get (made (configure (Some [(''clear'', JBool True)]) None) False)
     (reset (made (configure (Some [(''clear'', JBool True)]) None) False) Map.empty ''clear'')
     ''clear'' = Inl SyntaxError"
  by code_simp

subsection \<open>Reset of everything\<close>




subsection \<open>Reading\<close>




subsection \<open>The first-run flag of an instance\<close>





section \<open>Properties of the options page\<close>

subsection \<open>Controls that differ in an unresolved transform\<close>

lemma apply_filter_unresolved:
  "unresolved w el t \<Longrightarrow> apply_filter (getTransformFunction w el t) v = Inr v"
  by (auto simp: unresolved_def apply_filter_def split: option.splits global.splits)

lemma alike_refl: "alike w t x x"
  by (simp add: alike_def)

lemma alike_fields:
  assumes "alike w t x y"
  shows "evalue y = evalue x" "checked y = checked x" "ename y = ename x" "etype y = etype x"
    "tagName y = tagName x" "form y = form x" "elength y = elength x"
    "emin y = emin x" "emax y = emax x" "valueAsNumber y = valueAsNumber x"
  using assms
  by (auto simp: alike_def without_transform_def emin_def emax_def valueAsNumber_def)

lemma alike_filter:
  assumes "alike w t x y"
  shows "apply_filter (getTransformFunction w y t') v = apply_filter (getTransformFunction w x t') v"
proof (cases "y = x")
  case True
  then show ?thesis by simp
next
  case False
  with assms have u: "unresolved w x t" and y: "y = without_transform t x"
    by (auto simp: alike_def)
  show ?thesis
  proof (cases "t' = t")
    case True
    have "apply_filter (getTransformFunction w y t) v = Inr v"
      by (simp add: y apply_filter_def getTransformFunction_def without_transform_def)
    with True apply_filter_unresolved [OF u] show ?thesis by simp
  next
    case False
    then show ?thesis
      by (simp add: y getTransformFunction_def without_transform_def)
  qed
qed

lemma alike_evalue: "alike w t x y \<Longrightarrow> alike w t (x\<lparr>evalue := s\<rparr>) (y\<lparr>evalue := s\<rparr>)"
  by (auto simp: alike_def without_transform_def unresolved_def getTransformFunction_def)

lemma alike_checked: "alike w t x y \<Longrightarrow> alike w t (x\<lparr>checked := b\<rparr>) (y\<lparr>checked := b\<rparr>)"
  by (auto simp: alike_def without_transform_def unresolved_def getTransformFunction_def)

lemma alike_set_value:
  assumes "alike w t x y"
  shows "alike w t (set_value x v) (set_value y v)"
  using alike_evalue [OF assms] alike_fields(4) [OF assms]
  by (simp add: set_value_def Let_def)

lemma set_value_keeps [simp]:
  "attrs (set_value el v) = attrs el"
  "emin (set_value el v) = emin el"
  "emax (set_value el v) = emax el"
  "ename (set_value el v) = ename el"
  "etype (set_value el v) = etype el"
  by (simp_all add: set_value_def Let_def emin_def emax_def)

lemma alike_coerceToLimits:
  assumes a: "alike w t x y"
  shows "alike w t (fst (coerceToLimits x v)) (fst (coerceToLimits y v)) \<and>
         snd (coerceToLimits y v) = snd (coerceToLimits x v)"
proof -
  note f = alike_fields [OF a]
  note s = alike_set_value [OF a]
  have s2: "alike w t (set_value (set_value x u) u') (set_value (set_value y u) u')" for u u'
    by (rule alike_set_value [OF s])
  have s3: "alike w t (set_value (set_value (set_value x u) u') u'')
              (set_value (set_value (set_value y u) u') u'')" for u u' u''
    by (rule alike_set_value [OF s2])
  show ?thesis
    using a s s2 s3 by (simp add: coerceToLimits_def Let_def f split: prod.splits)
qed

lemma filter_alike:
  "list_all2 (alike w t) xs ys \<Longrightarrow> (\<And>x y. alike w t x y \<Longrightarrow> P y = P x) \<Longrightarrow>
   list_all2 (alike w t) (filter P xs) (filter P ys)"
  by (induction rule: list_all2_induct) auto

lemma checked_value_alike:
  "list_all2 (alike w t) xs ys \<Longrightarrow>
   (case find checked ys of Some input \<Rightarrow> JStr (evalue input) | None \<Rightarrow> JNull) =
   (case find checked xs of Some input \<Rightarrow> JStr (evalue input) | None \<Rightarrow> JNull)"
proof (induction rule: list_all2_induct)
  case Nil
  then show ?case by simp
next
  case (Cons x xs y ys)
  from alike_fields(1,2) [OF Cons.hyps(1)] Cons.IH show ?case by simp
qed

lemma getRadioValue_alike:
  assumes l: "list_all2 (alike w t) d d'" and a: "alike w t x y"
  shows "getRadioValue d' y = getRadioValue d x"
proof -
  note f = alike_fields [OF a]
  show ?thesis
  proof (cases "form x")
    case None
    let ?P = "\<lambda>e. toLowerCase (tagName e) = ''input'' \<and> toLowerCase (etype e) = ''radio'' \<and>
                  ename e = ename x"
    have "list_all2 (alike w t) (filter ?P d) (filter ?P d')"
      by (rule filter_alike [OF l]) (auto dest: alike_fields)
    from checked_value_alike [OF this] None show ?thesis
      by (simp add: getRadioValue_def Let_def f)
  next
    case (Some g)
    let ?P = "\<lambda>e. form e = Some g \<and> ename e = ename x"
    have r: "list_all2 (alike w t) (filter ?P d) (filter ?P d')"
      by (rule filter_alike [OF l]) (auto dest: alike_fields)
    from checked_value_alike [OF r] list_all2_lengthD [OF r] Some show ?thesis
      by (simp add: getRadioValue_def Let_def form_elements_named_def f)
  qed
qed

lemma alike_nth:
  "list_all2 (alike w t) d d' \<Longrightarrow> j < length d \<Longrightarrow> alike w t (d ! j) (d' ! j)"
  by (simp add: list_all2_conv_all_nth)

lemma alike_update:
  "list_all2 (alike w t) d d' \<Longrightarrow> alike w t x y \<Longrightarrow> list_all2 (alike w t) (d[i := x]) (d'[i := y])"
  by (simp add: list_all2_update_cong)

lemma alike_uncheck:
  assumes a: "alike w t x y"
  shows "alike w t
     (if c \<and> toLowerCase (etype x) = ''radio'' \<and> ename x = n \<and> form x = g
      then x\<lparr>checked := False\<rparr> else x)
     (if c \<and> toLowerCase (etype y) = ''radio'' \<and> ename y = n \<and> form y = g
      then y\<lparr>checked := False\<rparr> else y)"
  using alike_fields [OF a] alike_checked [OF a] a by simp

lemma set_checked_alike:
  assumes l: "list_all2 (alike w t) d d'" and i: "i < length d"
  shows "list_all2 (alike w t) (set_checked d i b) (set_checked d' i b)"
proof -
  from l have len: "length d' = length d" by (simp add: list_all2_lengthD)
  note fi = alike_fields [OF alike_nth [OF l i]]
  define d1 where "d1 = d[i := (d ! i)\<lparr>checked := b\<rparr>]"
  define d1' where "d1' = d'[i := (d' ! i)\<lparr>checked := b\<rparr>]"
  define f where "f = (\<lambda>j. if j \<noteq> i \<and> toLowerCase (etype (d1 ! j)) = ''radio'' \<and>
      ename (d1 ! j) = ename (d ! i) \<and> form (d1 ! j) = form (d ! i)
      then (d1 ! j)\<lparr>checked := False\<rparr> else d1 ! j)"
  define f' where "f' = (\<lambda>j. if j \<noteq> i \<and> toLowerCase (etype (d1' ! j)) = ''radio'' \<and>
      ename (d1' ! j) = ename (d ! i) \<and> form (d1' ! j) = form (d ! i)
      then (d1' ! j)\<lparr>checked := False\<rparr> else d1' ! j)"
  have l1: "list_all2 (alike w t) d1 d1'"
    unfolding d1_def d1'_def
    by (rule alike_update [OF l alike_checked [OF alike_nth [OF l i]]])
  have len1: "length d1 = length d" "length d1' = length d"
    using len by (simp_all add: d1_def d1'_def)
  have step: "alike w t (f j) (f' j)" if "j < length d" for j
  proof -
    from that len1 have a: "alike w t (d1 ! j) (d1' ! j)"
      using alike_nth [OF l1, of j] by simp
    show ?thesis unfolding f_def f'_def by (rule alike_uncheck [OF a])
  qed
  have m: "list_all2 (alike w t) (map f [0 ..< length d1]) (map f' [0 ..< length d1'])"
    using step len1 by (simp add: list_all2_conv_all_nth)
  have e: "set_checked d i b =
      (if b \<and> toLowerCase (etype (d ! i)) = ''radio'' \<and> ename (d ! i) \<noteq> []
       then map f [0 ..< length d1] else d1)"
    unfolding set_checked_def Let_def f_def d1_def ..
  have e': "set_checked d' i b =
      (if b \<and> toLowerCase (etype (d ! i)) = ''radio'' \<and> ename (d ! i) \<noteq> []
       then map f' [0 ..< length d1'] else d1')"
    unfolding set_checked_def Let_def f'_def d1'_def fi(3,4,6) ..
  show ?thesis unfolding e e' using m l1 by simp
qed

lemma alike_pages_Inr [simp]:
  "alike_pages w t (Inr (d, s)) (Inr (d', s')) \<longleftrightarrow> list_all2 (alike w t) d d' \<and> s = s'"
  by (simp add: alike_pages_def)

lemma alike_pages_Inl [simp]: "alike_pages w t (Inl e) (Inl e') \<longleftrightarrow> e = e'"
  by (simp add: alike_pages_def)

lemma alike_pages_cases:
  assumes "alike_pages w t r r'"
  obtains (err) e where "r = Inl e" "r' = Inl e"
    | (ok) d s d' where "r = Inr (d, s)" "r' = Inr (d', s)" "list_all2 (alike w t) d d'"
proof (cases r)
  case (Inl e)
  with assms have "r' = Inl e" by (cases r') (simp_all add: alike_pages_def)
  with Inl err show ?thesis by blast
next
  case (Inr p)
  obtain d s where p: "p = (d, s)" by (cases p)
  with assms Inr obtain d' where "r' = Inr (d', s)" "list_all2 (alike w t) d d'"
    by (cases r') (auto simp: alike_pages_def)
  with Inr p ok show ?thesis by blast
qed

lemma elementChanged_alike:
  assumes l: "list_all2 (alike w t) d d'"
  shows "alike_pages w t (elementChanged storage w (d, s) i) (elementChanged storage w (d', s) i)"
proof (cases "i < length d")
  case False
  with list_all2_lengthD [OF l] show ?thesis by (simp add: elementChanged_def)
next
  case True
  from l have len: "length d' = length d" by (simp add: list_all2_lengthD)
  note a = alike_nth [OF l True]
  note f = alike_fields [OF a]
  let ?ty = "toLowerCase (etype (d ! i))"
  consider (c) "?ty \<in> checkable" | (n) "?ty \<notin> checkable" "?ty \<in> numeric"
    | (o) "?ty \<notin> checkable" "?ty \<notin> numeric" by blast
  then show ?thesis
  proof cases
    case c
    with True len l show ?thesis
      by (simp add: elementChanged_def Let_def f getRadioValue_alike [OF l a] alike_filter [OF a]
          split: sum.splits)
  next
    case n
    note k = alike_coerceToLimits [OF a, of "JNum (valueAsNumber (d ! i))"]
    obtain x1 x2 where x: "coerceToLimits (d ! i) (JNum (valueAsNumber (d ! i))) = (x1, x2)"
      by (cases "coerceToLimits (d ! i) (JNum (valueAsNumber (d ! i)))")
    obtain y1 y2 where y: "coerceToLimits (d' ! i) (JNum (valueAsNumber (d ! i))) = (y1, y2)"
      by (cases "coerceToLimits (d' ! i) (JNum (valueAsNumber (d ! i)))")
    from k x y have xy: "alike w t x1 y1" "y2 = x2" by simp_all
    from n True len x y xy show ?thesis
      by (simp add: elementChanged_def Let_def f alike_filter [OF xy(1)] alike_update [OF l xy(1)]
          split: sum.splits)
  next
    case o
    with True len l show ?thesis
      by (simp add: elementChanged_def Let_def f alike_filter [OF a] split: sum.splits)
  qed
qed

lemma updateElement_alike:
  assumes l: "list_all2 (alike w t) d d'"
  shows "alike_pages w t (updateElement storage w (d, s) i) (updateElement storage w (d', s) i)"
proof (cases "i < length d")
  case False
  with list_all2_lengthD [OF l] show ?thesis by (simp add: updateElement_def)
next
  case i: True
  from l have len: "length d' = length d" by (simp add: list_all2_lengthD)
  note a = alike_nth [OF l i]
  note f = alike_fields [OF a]
  show ?thesis
  proof (cases "get storage s (ename (d ! i))")
    case (Inl e)
    with i len show ?thesis by (simp add: updateElement_def Let_def f)
  next
    case (Inr sv)
    show ?thesis
    proof (cases "apply_filter (getTransformFunction w (d ! i) ''loadfunc'') sv")
      case (Inl e)
      with i len Inr show ?thesis
        by (simp add: updateElement_def Let_def f alike_filter [OF a])
    next
      case v: (Inr v)
      let ?ty = "toLowerCase (etype (d ! i))"
      consider (c) "?ty \<in> checkable" | (n) "?ty \<notin> checkable" "?ty \<in> numeric"
        | (o) "?ty \<notin> checkable" "?ty \<notin> numeric" by blast
      then show ?thesis
      proof cases
        case c
        with i len Inr v show ?thesis
          by (simp add: updateElement_def Let_def f alike_filter [OF a] set_checked_alike [OF l i])
      next
        case n
        note sv = alike_set_value [OF a, of v]
        note k = alike_coerceToLimits [OF sv, of JUndefined]
        obtain x1 x2 where x: "coerceToLimits (set_value (d ! i) v) JUndefined = (x1, x2)"
          by (cases "coerceToLimits (set_value (d ! i) v) JUndefined")
        obtain y1 y2 where y: "coerceToLimits (set_value (d' ! i) v) JUndefined = (y1, y2)"
          by (cases "coerceToLimits (set_value (d' ! i) v) JUndefined")
        from k x y have xy: "alike w t x1 y1" "y2 = x2" by simp_all
        note u = alike_update [OF l xy(1), of i]
        from n i len Inr v x y xy u elementChanged_alike [OF u, of storage s i] show ?thesis
          by (simp add: updateElement_def Let_def f alike_filter [OF a])
      next
        case o
        with i len Inr v alike_update [OF l alike_set_value [OF a, of v], of i] show ?thesis
          by (simp add: updateElement_def Let_def f alike_filter [OF a])
      qed
    qed
  qed
qed

lemma each_alike:
  assumes f: "\<And>d d' s i. list_all2 (alike w t) d d' \<Longrightarrow> alike_pages w t (f (d, s) i) (f (d', s) i)"
  shows "list_all2 (alike w t) d d' \<Longrightarrow> alike_pages w t (each f (d, s) js) (each f (d', s) js)"
proof (induction js arbitrary: d d' s)
  case Nil
  then show ?case by simp
next
  case (Cons j js)
  from f [OF Cons.prems, of s j] show ?case
  proof (cases rule: alike_pages_cases)
    case (err e)
    then show ?thesis by simp
  next
    case (ok d1 s1 d1')
    with Cons.IH [OF ok(3), of s1] show ?thesis by simp
  qed
qed

lemma on_target_alike:
  assumes f: "\<And>d d' s i. list_all2 (alike w t) d d' \<Longrightarrow> alike_pages w t (f (d, s) i) (f (d', s) i)"
    and l: "list_all2 (alike w t) d d'"
  shows "alike_pages w t (on_target f (d, s) i) (on_target f (d', s) i)"
proof (cases "i < length d")
  case False
  with list_all2_lengthD [OF l] l show ?thesis by (simp add: on_target_def)
next
  case True
  from alike_fields(7) [OF alike_nth [OF l True]] True list_all2_lengthD [OF l] l f [OF l, of s i]
  show ?thesis by (simp add: on_target_def split: option.splits)
qed

lemma getElementsByName_alike:
  assumes l: "list_all2 (alike w t) d d'"
  shows "getElementsByName d' name = getElementsByName d name"
proof -
  have "ename (d' ! j) = ename (d ! j)" if "j < length d" for j
    using alike_fields(3) [OF alike_nth [OF l that]] .
  then have "filter (\<lambda>i. ename (d' ! i) = name) [0 ..< length d] =
             filter (\<lambda>i. ename (d ! i) = name) [0 ..< length d]"
    by (intro filter_cong) simp_all
  with list_all2_lengthD [OF l] show ?thesis by (simp add: getElementsByName_def)
qed

lemma update_alike:
  assumes l: "list_all2 (alike w t) d d'"
  shows "alike_pages w t (update storage w (d, s) tg) (update storage w (d', s) tg)"
proof (cases tg)
  case (TName name)
  with l each_alike [of w t "updateElement storage w", OF updateElement_alike l]
  show ?thesis by (simp add: update_def getElementsByName_alike [OF l])
next
  case (TElement i)
  with on_target_alike [of w t "updateElement storage w", OF updateElement_alike l]
  show ?thesis by (simp add: update_def)
next
  case (TElements js)
  with each_alike [of w t "updateElement storage w", OF updateElement_alike l]
  show ?thesis by (simp add: update_def)
qed

lemma save_alike:
  assumes l: "list_all2 (alike w t) d d'"
  shows "alike_pages w t (save storage w (d, s) tg) (save storage w (d', s) tg)"
proof (cases tg)
  case (TName name)
  with l on_target_alike [of w t "elementChanged storage w", OF elementChanged_alike l]
  show ?thesis
    by (simp add: save_def querySelector_name_def getElementsByName_alike [OF l] split: list.splits)
next
  case (TElement i)
  with on_target_alike [of w t "elementChanged storage w", OF elementChanged_alike l]
  show ?thesis by (simp add: save_def)
next
  case (TElements js)
  with each_alike [of w t "elementChanged storage w", OF elementChanged_alike l]
  show ?thesis by (simp add: save_def)
qed

lemma view_alike:
  assumes "alike_pages w t r r'"
  shows "map_sum id view r' = map_sum id view r"
  using assms
proof (cases rule: alike_pages_cases)
  case (err e)
  then show ?thesis by simp
next
  case (ok d s d')
  from ok(3) have "map (\<lambda>e. (evalue e, checked e)) d' = map (\<lambda>e. (evalue e, checked e)) d"
    by (induction rule: list_all2_induct) (auto dest: alike_fields)
  with ok show ?thesis by (simp add: view_def)
qed

lemma without_alike:
  assumes "i < length doc" and "unresolved w (doc ! i) t"
  shows "list_all2 (alike w t) doc (doc[i := without_transform t (doc ! i)])"
proof -
  have "alike w t (doc ! k) (doc[i := without_transform t (doc ! i)] ! k)" if "k < length doc" for k
    using that assms by (cases "k = i") (simp_all add: alike_def)
  then show ?thesis by (simp add: list_all2_conv_all_nth)
qed

subsection \<open>Transform references that resolve to nothing\<close>




subsection \<open>Coercion of a numeric control on update\<close>

text \<open>
  Claim C8 at two inputs, on a number control named \<open>numeric\<close> with bounds 0 and 10.
  With the stored number 15, \<open>update\<close> shows 10 and stores 10. With the stored empty
  string, the control first shows a blank, the coercion of not-a-number makes it show 0,
  and the comparison of 0 with the empty string by \<open>!=\<close> is false: the backend still
  holds the empty string, not the 0 that is shown.
\<close>

theorem update_numeric_blank_not_persisted:
  "map_sum id (\<lambda>(doc, st). (map evalue doc, st ''numeric''))
     (update (made (configure None None) False) Map.empty
        ([\<lparr>tagName = ''INPUT'', etype = ''number'', ename = ''numeric'', evalue = [], checked = False,
           form = None, elength = None, attrs = [''min'' \<mapsto> ''0'', ''max'' \<mapsto> ''10'']\<rparr>],
         [''numeric'' \<mapsto> ''15'']) (TName ''numeric'')) =
   Inr ([''10''], Some ''10'') \<and>
   get (made (configure None None) False) [''numeric'' \<mapsto> [CHR 0x22, CHR 0x22]] ''numeric'' =
     Inr (JStr []) \<and>
   map_sum id (\<lambda>(doc, st). (map evalue doc, st ''numeric''))
     (update (made (configure None None) False) Map.empty
        ([\<lparr>tagName = ''INPUT'', etype = ''number'', ename = ''numeric'', evalue = [], checked = False,
           form = None, elength = None, attrs = [''min'' \<mapsto> ''0'', ''max'' \<mapsto> ''10'']\<rparr>],
         [''numeric'' \<mapsto> [CHR 0x22, CHR 0x22]]) (TName ''numeric'')) =
   Inr ([''0''], Some [CHR 0x22, CHR 0x22])"
  by code_simp


end
